theory Spec2Isabelle
  imports Complex_Main "HOL-Library.Word" "HOL-Library.Multiset" "HOL-Library.Monad_Syntax"
begin

unbundle bit_operations_syntax

section \<open>Configuration\<close>

text \<open>
  A shallow embedding of \<^verbatim>\<open>src/d3d/box/nms_cuda.cu\<close>: the tiled pairwise overlap
  kernel, the sequential collecting kernel and the two host functions around them.

  Conventions of the embedding.
  \<^item> \<^verbatim>\<open>bitvec_t\<close> (\<^verbatim>\<open>int64_t\<close>, used as a 64-bit flag word) is \<open>64 word\<close>.
  \<^item> Indices and sizes (\<^verbatim>\<open>int\<close> in the source) are \<open>nat\<close>: a count beyond the
    range of \<^verbatim>\<open>int\<close> is excluded by the dense allocations of the host function.
    On such values \<^verbatim>\<open>x << FLAG_BITS\<close> is \<open>x * FLAG_WIDTH\<close>, \<^verbatim>\<open>i >> FLAG_BITS\<close>
    is \<open>i div FLAG_WIDTH\<close> and \<^verbatim>\<open>i & (FLAG_WIDTH-1)\<close> is \<open>i mod FLAG_WIDTH\<close>.
  \<^item> \<^verbatim>\<open>scalar_t\<close> and \<^verbatim>\<open>float\<close> values are idealised as \<open>real\<close> in the pairwise kernel
    and the host functions: rounding, infinities and NaN are left out there. Over
    \<open>real\<close> a coefficient cell that is \<open>0\<close> stays \<open>0\<close> under every product and
    \<open>x / 0\<close> is \<open>0\<close>; in the source the cell becomes NaN when \<^verbatim>\<open>pow\<close> or \<^verbatim>\<open>exp\<close>
    gives an infinity. The collecting kernel is modelled for any type of scalars
    with a product and an order, and what is said of its scores is said over
    \<open>fscalar\<close>, the reals with the two infinities and NaN.
  \<^item> The functions the kernels call and do not define are parameters, collected in a
    record \<open>device_fns\<close>: the geometry (\<^verbatim>\<open>make_box\<close> and \<^verbatim>\<open>BoxType::iou\<close> of
    \<^verbatim>\<open>d3d/box/utils.cuh\<close>), where \<open>box_iou fns a b\<close> stands for
    \<^verbatim>\<open>make_box(a).iou(make_box(b))\<close>, and \<^verbatim>\<open>pow\<close> and \<^verbatim>\<open>exp\<close> of the device's
    mathematical library.
  \<^item> A one-dimensional tensor is a list, a two-dimensional one a list of rows. An
    access out of range is undefined in the source; in the model the write does
    nothing and the value read is unspecified. The tensors the host function allocates
    and the permutation \<^verbatim>\<open>argsort\<close> returns keep every index of the kernels in range.
\<close>

type_synonym bitvec_t = "64 word"

definition FLAG_BITS :: nat where
  "FLAG_BITS = 6"

definition FLAG_WIDTH :: nat where
  "FLAG_WIDTH = push_bit FLAG_BITS 1"

text \<open>
  The enumeration \<^verbatim>\<open>SupressionType\<close> is declared in \<^verbatim>\<open>d3d/box/nms.h\<close>; its members are
  the three the kernels name.
\<close>

datatype SupressionType = HARD | LINEAR | GAUSSIAN

text \<open>
  Modelled from the spec: \<^verbatim>\<open>divup\<close> is declared in \<^verbatim>\<open>d3d/common.h\<close>, which is not part of
  the sources at hand; the spec sizes the bit matrix with \<open>ceil(M/W)\<close> words per row.
\<close>

definition divup :: "nat \<Rightarrow> nat \<Rightarrow> nat" where
  "divup a b = (a + b - 1) div b"

record 'b device_fns =
  box_iou :: "'b \<Rightarrow> 'b \<Rightarrow> real"
  pow_fn :: "real \<Rightarrow> real \<Rightarrow> real"
  exp_fn :: "real \<Rightarrow> real"

text \<open>
  The library functions on reals, for the examples: \<^verbatim>\<open>pow(x, 0)\<close> is 1 for every \<open>x\<close>,
  and \<^verbatim>\<open>pow(x, y)\<close> is \<open>x powr y\<close> for positive \<open>x\<close> and 0 for \<open>x = 0 < y\<close>.
  Elsewhere \<open>pow_real\<close> is not the library function: for \<open>x = 0\<close> and \<open>y < 0\<close>
  the library gives an infinity where \<open>pow_real\<close> is \<open>0\<close>, and a negative \<open>x\<close> is
  not provided for. The examples use it with positive \<open>x\<close> only.
\<close>

definition pow_real :: "real \<Rightarrow> real \<Rightarrow> real" where
  "pow_real x y = (if y = 0 then 1 else x powr y)"

definition real_fns :: "('b \<Rightarrow> 'b \<Rightarrow> real) \<Rightarrow> 'b device_fns" where
  "real_fns iou = \<lparr>box_iou = iou, pow_fn = pow_real, exp_fn = exp\<rparr>"

text \<open>Writing one cell of a two-dimensional tensor: \<^verbatim>\<open>m[r][c] = v\<close>.\<close>

definition upd2 :: "'a list list \<Rightarrow> nat \<Rightarrow> nat \<Rightarrow> 'a \<Rightarrow> 'a list list" where
  "upd2 m r c v = m[r := (m ! r)[c := v]]"

section \<open>The pairwise overlap kernel\<close>

text \<open>The two tensors \<^verbatim>\<open>nms2d_iou_kernel\<close> writes.\<close>

record iou_mem =
  iou_coeffs :: "real list list"
  mask_w :: "bitvec_t list list"

text \<open>
  One iteration of the loop \<^verbatim>\<open>for (int i = start; i < col_size; i++)\<close>; the loop state is
  the local \<^verbatim>\<open>flag\<close> and the coefficient tensor. The \<^verbatim>\<open>switch\<close> has no case for
  \<^verbatim>\<open>HARD\<close>.
\<close>

definition iou_loop_body ::
  "'b device_fns \<Rightarrow> SupressionType \<Rightarrow> 'b \<Rightarrow> 'b list \<Rightarrow> real \<Rightarrow> real \<Rightarrow> nat \<Rightarrow> nat
    \<Rightarrow> bitvec_t \<times> real list list \<Rightarrow> bitvec_t \<times> real list list" where
  "iou_loop_body fns Supression bcur block_boxes iou_threshold supression_param idx i s =
     (let v = box_iou fns bcur (block_boxes ! i);
          flag = (if v > iou_threshold then fst s OR push_bit i 1 else fst s);
          c = snd s
      in (flag,
          case Supression of
            HARD \<Rightarrow> c
          | LINEAR \<Rightarrow> upd2 c idx i (c ! idx ! i * (1 - pow_fn fns v supression_param))
          | GAUSSIAN \<Rightarrow> upd2 c idx i (c ! idx ! i * exp_fn fns (- v * v / supression_param))))"

text \<open>
  One execution unit: the thread \<open>tid\<close> (\<^verbatim>\<open>threadIdx.x\<close>) of the block
  \<open>(row_start, col_start)\<close> (\<^verbatim>\<open>blockIdx.y\<close>, \<^verbatim>\<open>blockIdx.x\<close>). The shared array
  \<^verbatim>\<open>block_boxes\<close> holds, after the barrier, the boxes of the column tile, entry
  \<open>t\<close> loaded by thread \<open>t < col_size\<close>.
\<close>

definition iou_thread ::
  "'b device_fns \<Rightarrow> SupressionType \<Rightarrow> 'b list \<Rightarrow> nat list \<Rightarrow> real \<Rightarrow> real
    \<Rightarrow> nat \<times> nat \<times> nat \<Rightarrow> iou_mem \<Rightarrow> iou_mem" where
  "iou_thread fns Supression boxes order iou_threshold supression_param u m =
     (case u of (row_start, col_start, tid) \<Rightarrow>
        if row_start > col_start then m
        else
          let row_size = min (length boxes - row_start * FLAG_WIDTH) FLAG_WIDTH;
              col_size = min (length boxes - col_start * FLAG_WIDTH) FLAG_WIDTH;
              block_boxes = map (\<lambda>t. boxes ! (order ! (col_start * FLAG_WIDTH + t))) [0..<col_size]
          in if tid < row_size then
               let idx = row_start * FLAG_WIDTH + tid;
                   bcur = boxes ! (order ! idx);
                   start = (if row_start = col_start then tid + 1 else 0);
                   r = fold (iou_loop_body fns Supression bcur block_boxes
                               iou_threshold supression_param idx)
                         [start..<col_size] (0, iou_coeffs m)
               in \<lparr>iou_coeffs = snd r, mask_w = upd2 (mask_w m) idx col_start (fst r)\<rparr>
             else m)"

text \<open>
  The launch \<^verbatim>\<open><<<blocks(nblocks, nblocks), threads(FLAG_WIDTH)>>>\<close>: every unit of the
  grid runs once. The model runs the units one after the other, in the order of a
  schedule; \<open>grid_units\<close> is the schedule by rows, columns and threads. A unit reads
  \<^verbatim>\<open>boxes_\<close>, \<^verbatim>\<open>order_\<close> and the tile loaded before the barrier, and stores one word of
  \<^verbatim>\<open>mask_\<close> that no other unit stores, so the bit matrix is the same under every
  schedule. The cells of \<^verbatim>\<open>iou_coeffs_\<close> are read and written by more than one unit.
\<close>

definition grid_units :: "nat \<Rightarrow> (nat \<times> nat \<times> nat) list" where
  "grid_units nblocks =
     concat (map (\<lambda>y. concat (map (\<lambda>x. map (\<lambda>t. (y, x, t)) [0..<FLAG_WIDTH]) [0..<nblocks]))
               [0..<nblocks])"

definition run_units ::
  "'b device_fns \<Rightarrow> SupressionType \<Rightarrow> 'b list \<Rightarrow> nat list \<Rightarrow> real \<Rightarrow> real
    \<Rightarrow> (nat \<times> nat \<times> nat) list \<Rightarrow> iou_mem \<Rightarrow> iou_mem" where
  "run_units fns Supression boxes order iou_threshold supression_param units m =
     fold (iou_thread fns Supression boxes order iou_threshold supression_param) units m"

definition nms2d_iou_kernel ::
  "'b device_fns \<Rightarrow> SupressionType \<Rightarrow> 'b list \<Rightarrow> nat list \<Rightarrow> real \<Rightarrow> real
    \<Rightarrow> nat \<Rightarrow> iou_mem \<Rightarrow> iou_mem" where
  "nms2d_iou_kernel fns Supression boxes order iou_threshold supression_param nblocks m =
     run_units fns Supression boxes order iou_threshold supression_param (grid_units nblocks) m"

section \<open>The collecting kernel\<close>

text \<open>
  The three tensors \<^verbatim>\<open>nms_collect_kernel\<close> writes. The kernel multiplies and compares
  its scalars and does nothing else with them, so its model leaves the type \<open>'s\<close> of
  the scalars open: the host functions below use it with \<open>real\<close>, and the type
  \<open>fscalar\<close> further down adds the infinities and NaN of \<^verbatim>\<open>scalar_t\<close>.
\<close>

record 's collect_mem =
  remv :: "bitvec_t list"
  scores :: "'s list"
  suppressed :: "bool list"

text \<open>
  The sizes \<^verbatim>\<open>mask_.size(0)\<close> and \<^verbatim>\<open>mask_.size(1)\<close>. A list of rows has no second
  dimension when it is empty; the host allocates \<open>nboxes \<times> divup nboxes FLAG_WIDTH\<close>,
  whose second dimension is 0 then.
\<close>

definition size0 :: "'a list list \<Rightarrow> nat" where
  "size0 m = length m"

definition size1 :: "'a list list \<Rightarrow> nat" where
  "size1 m = (case m of [] \<Rightarrow> 0 | r # _ \<Rightarrow> length r)"

text \<open>The body of \<^verbatim>\<open>for (int k = 0; k < FLAG_WIDTH; k++)\<close> of the soft modes.\<close>

definition soft_bit_step ::
  "bitvec_t list list \<Rightarrow> ('s::{times,ord}) list list \<Rightarrow> 's \<Rightarrow> nat \<Rightarrow> nat \<Rightarrow> nat
    \<Rightarrow> 's collect_mem \<Rightarrow> 's collect_mem" where
  "soft_bit_step msk coeffs score_threshold i j k st =
     (if msk ! i ! j AND push_bit k 1 \<noteq> 0 then
        let i2 = j * FLAG_WIDTH + k in
        if remv st ! j AND push_bit k 1 \<noteq> 0 then st
        else
          let sc = (scores st)[i2 := scores st ! i2 * coeffs ! i ! i2] in
          if sc ! i2 < score_threshold
          then st\<lparr>scores := sc, remv := (remv st)[j := remv st ! j OR push_bit k 1]\<rparr>
          else st\<lparr>scores := sc\<rparr>
      else st)"

text \<open>The body of \<^verbatim>\<open>for (int j = block_idx; j < nblocks; j++)\<close>.\<close>

definition block_step ::
  "SupressionType \<Rightarrow> bitvec_t list list \<Rightarrow> ('s::{times,ord}) list list \<Rightarrow> 's \<Rightarrow> nat \<Rightarrow> nat
    \<Rightarrow> 's collect_mem \<Rightarrow> 's collect_mem" where
  "block_step Supression msk coeffs score_threshold i j st =
     (if Supression = HARD then st\<lparr>remv := (remv st)[j := remv st ! j OR msk ! i ! j]\<rparr>
      else fold (soft_bit_step msk coeffs score_threshold i j) [0..<FLAG_WIDTH] st)"

text \<open>The body of \<^verbatim>\<open>for (int i = 0; i < nboxes; i++)\<close>.\<close>

definition collect_step ::
  "SupressionType \<Rightarrow> nat list \<Rightarrow> bitvec_t list list \<Rightarrow> ('s::{times,ord}) list list \<Rightarrow> 's \<Rightarrow> nat
    \<Rightarrow> 's collect_mem \<Rightarrow> 's collect_mem" where
  "collect_step Supression order msk coeffs score_threshold i st =
     (let nblocks = size1 msk;
          block_idx = i div FLAG_WIDTH;
          thread_idx = i mod FLAG_WIDTH
      in if remv st ! block_idx AND push_bit thread_idx 1 \<noteq> 0
         then st\<lparr>suppressed := (suppressed st)[order ! i := True]\<rparr>
         else fold (block_step Supression msk coeffs score_threshold i) [block_idx..<nblocks] st)"

definition nms_collect_kernel ::
  "SupressionType \<Rightarrow> nat list \<Rightarrow> bitvec_t list list \<Rightarrow> ('s::{times,ord}) list list \<Rightarrow> 's
    \<Rightarrow> 's collect_mem \<Rightarrow> 's collect_mem" where
  "nms_collect_kernel Supression order msk coeffs score_threshold st =
     fold (collect_step Supression order msk coeffs score_threshold) [0..<size0 msk] st"

section \<open>The host functions\<close>

text \<open>
  \<^verbatim>\<open>nms2d_cuda_templated\<close>, in two parts: the allocation of \<^verbatim>\<open>mask\<close> and
  \<^verbatim>\<open>iou_coeffs\<close> with the first launch (\<open>pairwise_phase\<close>), then the allocation of
  \<^verbatim>\<open>remv\<close> with the second launch. The function returns nothing and leaves its results
  in \<^verbatim>\<open>scores\<close> and \<^verbatim>\<open>suppressed\<close>; the model returns the memory of the collecting
  kernel at its end, the temporary \<^verbatim>\<open>remv\<close> included.
\<close>

definition pairwise_phase ::
  "'b device_fns \<Rightarrow> SupressionType \<Rightarrow> 'b list \<Rightarrow> nat list \<Rightarrow> real \<Rightarrow> real \<Rightarrow> iou_mem" where
  "pairwise_phase fns Supression boxes order iou_threshold supression_param =
     (let nboxes = length boxes;
          nblocks = divup nboxes FLAG_WIDTH;
          msk = replicate nboxes (replicate nblocks 0);
          coeffs = (if Supression = HARD then []
                    else replicate nboxes (replicate nboxes 0))
      in nms2d_iou_kernel fns Supression boxes order iou_threshold supression_param
           nblocks \<lparr>iou_coeffs = coeffs, mask_w = msk\<rparr>)"

definition nms2d_cuda_templated ::
  "'b device_fns \<Rightarrow> SupressionType \<Rightarrow> 'b list \<Rightarrow> nat list \<Rightarrow> real list
    \<Rightarrow> real \<Rightarrow> real \<Rightarrow> real \<Rightarrow> bool list \<Rightarrow> real collect_mem" where
  "nms2d_cuda_templated fns Supression boxes order scores0 iou_threshold score_threshold
      supression_param suppressed0 =
     (let nboxes = length boxes;
          nblocks = divup nboxes FLAG_WIDTH;
          m = pairwise_phase fns Supression boxes order iou_threshold supression_param
      in nms_collect_kernel Supression order (mask_w m) (iou_coeffs m) score_threshold
           \<lparr>remv = replicate nblocks 0, scores = scores0, suppressed = suppressed0\<rparr>)"

text \<open>
  \<^verbatim>\<open>t.index({score_mask})\<close>: the entries of \<open>t\<close> where the mask is true, in their
  order, as a new tensor.
\<close>

definition index_mask :: "'a list \<Rightarrow> bool list \<Rightarrow> 'a list" where
  "index_mask xs bs = map fst (filter snd (zip xs bs))"

text \<open>
  What \<^verbatim>\<open>argsort(-1, true)\<close> promises of its result: a permutation of the positions
  that lists the values in descending order. The order of equal values is left open,
  so the sorting function is a parameter \<open>argsort\<close> of the host function.
\<close>

definition is_argsort_desc :: "real list \<Rightarrow> nat list \<Rightarrow> bool" where
  "is_argsort_desc xs ord \<longleftrightarrow>
     mset ord = mset [0..<length xs] \<and> sorted_wrt (\<lambda>a b. xs ! a \<ge> xs ! b) ord"

text \<open>One such function: the stable descending sort of the positions.\<close>

definition argsort_desc :: "real list \<Rightarrow> nat list" where
  "argsort_desc xs = sort_key (\<lambda>i. - (xs ! i)) [0..<length xs]"

datatype error = IndexError | TypeError

text \<open>
  \<^verbatim>\<open>nms2d_cuda\<close>. Indexing \<^verbatim>\<open>boxes\<close> with a mask of another length raises.
\<close>

definition nms2d_cuda ::
  "(real list \<Rightarrow> nat list) \<Rightarrow> 'b device_fns \<Rightarrow> 'b list \<Rightarrow> real list \<Rightarrow> SupressionType
    \<Rightarrow> real \<Rightarrow> real \<Rightarrow> real \<Rightarrow> error + bool list" where
  "nms2d_cuda argsort fns boxes scores0 supression_type iou_threshold score_threshold
      supression_param =
     (let score_mask = map (\<lambda>s. s > score_threshold) scores0 in
      if length boxes \<noteq> length score_mask then Inl IndexError
      else
        let boxes_masked = index_mask boxes score_mask;
            scores_masked = index_mask scores0 score_mask;
            order = argsort scores_masked;
            suppressed0 = replicate (length boxes_masked) False
        in Inr (suppressed
                 (nms2d_cuda_templated fns supression_type boxes_masked order scores_masked
                    iou_threshold score_threshold supression_param suppressed0)))"

section \<open>Notions of the specification\<close>

text \<open>The IoU of the shapes at the sorted positions \<open>i\<close> and \<open>j\<close>.\<close>

definition sorted_iou :: "'b device_fns \<Rightarrow> 'b list \<Rightarrow> nat list \<Rightarrow> nat \<Rightarrow> nat \<Rightarrow> real" where
  "sorted_iou fns boxes order i j = box_iou fns (boxes ! (order ! i)) (boxes ! (order ! j))"

text \<open>
  The bit \<open>k\<close> of the word \<open>j\<close> of row \<open>i\<close> stands for the pair of sorted positions
  \<open>i\<close> and \<open>j * FLAG_WIDTH + k\<close>; \<open>overlap_bit\<close> says when it is to be set.
\<close>

definition overlap_bit ::
  "'b device_fns \<Rightarrow> 'b list \<Rightarrow> nat list \<Rightarrow> real \<Rightarrow> nat \<Rightarrow> nat \<Rightarrow> nat \<Rightarrow> bool" where
  "overlap_bit fns boxes order thr i j k \<longleftrightarrow>
     k < FLAG_WIDTH \<and> i < j * FLAG_WIDTH + k \<and> j * FLAG_WIDTH + k < length boxes \<and>
     sorted_iou fns boxes order i (j * FLAG_WIDTH + k) > thr"

text \<open>The memory of the collecting kernel after the first \<open>n\<close> rounds of its outer loop.\<close>

definition collect_upto ::
  "SupressionType \<Rightarrow> nat list \<Rightarrow> bitvec_t list list \<Rightarrow> ('s::{times,ord}) list list \<Rightarrow> 's \<Rightarrow> nat
    \<Rightarrow> 's collect_mem \<Rightarrow> 's collect_mem" where
  "collect_upto Supression order msk coeffs score_threshold n st =
     fold (collect_step Supression order msk coeffs score_threshold) [0..<n] st"

text \<open>The accumulator bit of the sorted position \<open>i\<close>.\<close>

definition remv_bit :: "'s collect_mem \<Rightarrow> nat \<Rightarrow> bool" where
  "remv_bit st i \<longleftrightarrow> bit (remv st ! (i div FLAG_WIDTH)) (i mod FLAG_WIDTH)"

text \<open>
  Nothing is lost between two memories of the collecting kernel: every accumulator bit
  and every flag set in the first is set in the second.
\<close>

definition mem_le :: "'s collect_mem \<Rightarrow> 's collect_mem \<Rightarrow> bool" where
  "mem_le st st' \<longleftrightarrow>
     list_all2 (\<lambda>w w'. w AND w' = w) (remv st) (remv st') \<and>
     list_all2 (\<lambda>f f'. f \<longrightarrow> f') (suppressed st) (suppressed st')"

text \<open>The entries of a tensor that pass the score filter of \<^verbatim>\<open>nms2d_cuda\<close>.\<close>

definition survivors :: "'a list \<Rightarrow> real list \<Rightarrow> real \<Rightarrow> 'a list" where
  "survivors xs scores0 score_threshold = index_mask xs (map (\<lambda>s. s > score_threshold) scores0)"

section \<open>Scalars with infinities and NaN\<close>

text \<open>
  The values of \<^verbatim>\<open>scalar_t\<close> that are not numbers decide what the decay does to a
  score: a product with NaN is NaN, zero times an infinity is NaN, and every comparison
  with NaN is false. \<open>fscalar\<close> has the finite values as reals (rounding, overflow of a
  finite product and the sign of zero are left out), the two infinities and NaN,
  with the product and the comparisons of the floating-point standard.
\<close>

datatype fscalar = Fin real | PInf | NInf | NaN

fun fmul :: "fscalar \<Rightarrow> fscalar \<Rightarrow> fscalar" where
  "fmul NaN y = NaN"
| "fmul x NaN = NaN"
| "fmul (Fin a) (Fin b) = Fin (a * b)"
| "fmul (Fin a) PInf = (if a = 0 then NaN else if 0 < a then PInf else NInf)"
| "fmul (Fin a) NInf = (if a = 0 then NaN else if 0 < a then NInf else PInf)"
| "fmul PInf (Fin b) = (if b = 0 then NaN else if 0 < b then PInf else NInf)"
| "fmul NInf (Fin b) = (if b = 0 then NaN else if 0 < b then NInf else PInf)"
| "fmul PInf PInf = PInf"
| "fmul PInf NInf = NInf"
| "fmul NInf PInf = NInf"
| "fmul NInf NInf = PInf"

fun fless :: "fscalar \<Rightarrow> fscalar \<Rightarrow> bool" where
  "fless NaN y = False"
| "fless x NaN = False"
| "fless (Fin a) (Fin b) = (a < b)"
| "fless (Fin a) PInf = True"
| "fless (Fin a) NInf = False"
| "fless PInf y = False"
| "fless NInf NInf = False"
| "fless NInf y = True"

instantiation fscalar :: "{times, ord}"
begin

definition times_fscalar :: "fscalar \<Rightarrow> fscalar \<Rightarrow> fscalar" where
  "times_fscalar x y = fmul x y"

definition less_fscalar :: "fscalar \<Rightarrow> fscalar \<Rightarrow> bool" where
  "less_fscalar x y = fless x y"

definition less_eq_fscalar :: "fscalar \<Rightarrow> fscalar \<Rightarrow> bool" where
  "less_eq_fscalar x y = (fless x y \<or> (x = y \<and> x \<noteq> NaN))"

instance ..

end

text \<open>A number between two bounds: neither an infinity nor NaN.\<close>

definition number_in :: "real \<Rightarrow> real \<Rightarrow> fscalar \<Rightarrow> bool" where
  "number_in lo hi v = (case v of Fin r \<Rightarrow> lo \<le> r \<and> r \<le> hi | _ \<Rightarrow> False)"

section \<open>Tensors in device memory\<close>

text \<open>
  For the effect of \<^verbatim>\<open>nms2d_cuda\<close> on the tensors of its caller, tensors are
  storages in a memory: the memory is the list of the storages allocated so far, an
  address is a position in it, and an allocation appends. A \<^verbatim>\<open>Tensor\<close> passed by value
  and an accessor made from it are the address of its storage; \<^verbatim>\<open>torch::zeros\<close>, a
  comparison, \<^verbatim>\<open>argsort\<close> and \<^verbatim>\<open>index\<close> with a mask each return a new storage.
\<close>

datatype 'b storage =
    Boxes "'b list"
  | Reals "real list"
  | Reals2 "real list list"
  | Longs "nat list"
  | Bits "bitvec_t list"
  | Bits2 "bitvec_t list list"
  | Bools "bool list"

type_synonym 'b memory = "'b storage list"

definition alloc :: "'b memory \<Rightarrow> 'b storage \<Rightarrow> 'b memory \<times> nat" where
  "alloc h t = (h @ [t], length h)"

definition boxes_at :: "'b memory \<Rightarrow> nat \<Rightarrow> 'b list option" where
  "boxes_at h a = (if a < length h then (case h ! a of Boxes xs \<Rightarrow> Some xs | _ \<Rightarrow> None) else None)"

definition reals_at :: "'b memory \<Rightarrow> nat \<Rightarrow> real list option" where
  "reals_at h a = (if a < length h then (case h ! a of Reals xs \<Rightarrow> Some xs | _ \<Rightarrow> None) else None)"

definition reals2_at :: "'b memory \<Rightarrow> nat \<Rightarrow> real list list option" where
  "reals2_at h a = (if a < length h then (case h ! a of Reals2 xs \<Rightarrow> Some xs | _ \<Rightarrow> None) else None)"

definition longs_at :: "'b memory \<Rightarrow> nat \<Rightarrow> nat list option" where
  "longs_at h a = (if a < length h then (case h ! a of Longs xs \<Rightarrow> Some xs | _ \<Rightarrow> None) else None)"

definition bits_at :: "'b memory \<Rightarrow> nat \<Rightarrow> bitvec_t list option" where
  "bits_at h a = (if a < length h then (case h ! a of Bits xs \<Rightarrow> Some xs | _ \<Rightarrow> None) else None)"

definition bits2_at :: "'b memory \<Rightarrow> nat \<Rightarrow> bitvec_t list list option" where
  "bits2_at h a = (if a < length h then (case h ! a of Bits2 xs \<Rightarrow> Some xs | _ \<Rightarrow> None) else None)"

definition bools_at :: "'b memory \<Rightarrow> nat \<Rightarrow> bool list option" where
  "bools_at h a = (if a < length h then (case h ! a of Bools xs \<Rightarrow> Some xs | _ \<Rightarrow> None) else None)"

text \<open>
  The launch of \<^verbatim>\<open>nms2d_iou_kernel\<close> on accessors: the kernel reads \<^verbatim>\<open>boxes_\<close> and
  \<^verbatim>\<open>order_\<close> and writes through \<^verbatim>\<open>iou_coeffs_\<close> and \<^verbatim>\<open>mask_\<close>. \<open>None\<close> stands for an
  accessor of the wrong kind.
\<close>

definition launch_iou_kernel ::
  "'b device_fns \<Rightarrow> SupressionType \<Rightarrow> 'b memory \<Rightarrow> nat \<Rightarrow> nat \<Rightarrow> real \<Rightarrow> real \<Rightarrow> nat \<Rightarrow> nat
    \<Rightarrow> nat \<Rightarrow> 'b memory option" where
  "launch_iou_kernel fns Supression h boxes_a order_a iou_threshold supression_param
      coeffs_a mask_a nblocks =
     do {
       boxes \<leftarrow> boxes_at h boxes_a;
       order \<leftarrow> longs_at h order_a;
       coeffs \<leftarrow> reals2_at h coeffs_a;
       msk \<leftarrow> bits2_at h mask_a;
       let m = nms2d_iou_kernel fns Supression boxes order iou_threshold supression_param
                 nblocks \<lparr>iou_coeffs = coeffs, mask_w = msk\<rparr>;
       Some (h[coeffs_a := Reals2 (iou_coeffs m), mask_a := Bits2 (mask_w m)])
     }"

text \<open>
  The launch of \<^verbatim>\<open>nms_collect_kernel\<close>: it writes through \<^verbatim>\<open>remv_\<close>, \<^verbatim>\<open>scores_\<close> and
  \<^verbatim>\<open>suppressed_\<close>.
\<close>

definition launch_collect_kernel ::
  "SupressionType \<Rightarrow> 'b memory \<Rightarrow> nat \<Rightarrow> nat \<Rightarrow> nat \<Rightarrow> nat \<Rightarrow> nat \<Rightarrow> real \<Rightarrow> nat
    \<Rightarrow> 'b memory option" where
  "launch_collect_kernel Supression h order_a mask_a coeffs_a remv_a scores_a score_threshold
      suppressed_a =
     do {
       order \<leftarrow> longs_at h order_a;
       msk \<leftarrow> bits2_at h mask_a;
       coeffs \<leftarrow> reals2_at h coeffs_a;
       rm \<leftarrow> bits_at h remv_a;
       sc \<leftarrow> reals_at h scores_a;
       sp \<leftarrow> bools_at h suppressed_a;
       let r = nms_collect_kernel Supression order msk coeffs score_threshold
                 \<lparr>remv = rm, scores = sc, suppressed = sp\<rparr>;
       Some (h[remv_a := Bits (remv r), scores_a := Reals (scores r),
               suppressed_a := Bools (suppressed r)])
     }"

text \<open>\<^verbatim>\<open>nms2d_cuda_templated\<close> on tensors in memory.\<close>

definition nms2d_cuda_templated_mem ::
  "'b device_fns \<Rightarrow> SupressionType \<Rightarrow> 'b memory \<Rightarrow> nat \<Rightarrow> nat \<Rightarrow> nat \<Rightarrow> real \<Rightarrow> real \<Rightarrow> real
    \<Rightarrow> nat \<Rightarrow> 'b memory option" where
  "nms2d_cuda_templated_mem fns Supression h boxes_a order_a scores_a iou_threshold
      score_threshold supression_param suppressed_a =
     do {
       boxes \<leftarrow> boxes_at h boxes_a;
       let nboxes = length boxes;
       let nblocks = divup nboxes FLAG_WIDTH;
       let (h1, mask_a) = alloc h (Bits2 (replicate nboxes (replicate nblocks 0)));
       let (h2, coeffs_a) =
             alloc h1 (Reals2 (if Supression = HARD then []
                               else replicate nboxes (replicate nboxes 0)));
       h3 \<leftarrow> launch_iou_kernel fns Supression h2 boxes_a order_a iou_threshold supression_param
               coeffs_a mask_a nblocks;
       let (h4, remv_a) = alloc h3 (Bits (replicate nblocks 0));
       launch_collect_kernel Supression h4 order_a mask_a coeffs_a remv_a scores_a
         score_threshold suppressed_a
     }"

text \<open>
  \<^verbatim>\<open>nms2d_cuda\<close> on tensors in memory: it is given the addresses of \<^verbatim>\<open>boxes\<close> and
  \<^verbatim>\<open>scores\<close> and returns the memory after the call with the address of the tensor it
  returns, or an error.
\<close>

definition nms2d_cuda_mem ::
  "(real list \<Rightarrow> nat list) \<Rightarrow> 'b device_fns \<Rightarrow> 'b memory \<Rightarrow> nat \<Rightarrow> nat \<Rightarrow> SupressionType
    \<Rightarrow> real \<Rightarrow> real \<Rightarrow> real \<Rightarrow> 'b memory \<times> (error + nat)" where
  "nms2d_cuda_mem argsort fns h boxes_a scores_a supression_type iou_threshold score_threshold
      supression_param =
     (case (boxes_at h boxes_a, reals_at h scores_a) of
        (Some boxes, Some scores0) \<Rightarrow>
          let (h1, score_mask_a) = alloc h (Bools (map (\<lambda>s. s > score_threshold) scores0));
              score_mask = map (\<lambda>s. s > score_threshold) scores0
          in if length boxes \<noteq> length score_mask then (h1, Inl IndexError)
             else
               let (h2, boxes_masked_a) = alloc h1 (Boxes (index_mask boxes score_mask));
                   (h3, scores_masked_a) = alloc h2 (Reals (index_mask scores0 score_mask));
                   (h4, order_a) = alloc h3 (Longs (argsort (index_mask scores0 score_mask)));
                   (h5, suppressed_a) =
                      alloc h4 (Bools (replicate (length (index_mask boxes score_mask)) False))
               in (case nms2d_cuda_templated_mem fns supression_type h5 boxes_masked_a order_a
                          scores_masked_a iou_threshold score_threshold supression_param
                          suppressed_a of
                     None \<Rightarrow> (h5, Inl TypeError)
                   | Some h6 \<Rightarrow> (h6, Inr suppressed_a))
      | _ \<Rightarrow> (h, Inl TypeError))"

section \<open>Inputs for the examples\<close>

text \<open>
  An instance of the geometry for the examples: intersection over union of two
  axis-aligned boxes \<open>(x1, y1, x2, y2)\<close>.
\<close>

type_synonym aabox = "real \<times> real \<times> real \<times> real"

definition aabox_iou :: "aabox \<Rightarrow> aabox \<Rightarrow> real" where
  "aabox_iou a b =
     (case a of (ax1, ay1, ax2, ay2) \<Rightarrow> case b of (bx1, by1, bx2, by2) \<Rightarrow>
        let iw = max 0 (min ax2 bx2 - max ax1 bx1);
            ih = max 0 (min ay2 by2 - max ay1 by1);
            inter = iw * ih;
            uni = (ax2 - ax1) * (ay2 - ay1) + (bx2 - bx1) * (by2 - by1) - inter
        in inter / uni)"

text \<open>Two boxes whose IoU is \<open>4/5\<close>.\<close>

definition two_boxes :: "aabox list" where
  "two_boxes = [(0, 0, 10, 10), (0, 0, 10, 8)]"

text \<open>Three boxes: the first and the third overlap, the second is apart.\<close>

definition three_boxes :: "aabox list" where
  "three_boxes = [(0, 0, 10, 10), (20, 20, 30, 30), (0, 0, 10, 8)]"

text \<open>
  Sixty-six equal boxes in their own order, with a coefficient tensor of ones: the
  input of the units that compare the sorted position 0 with the positions 1, 64 and
  65.
\<close>

definition many_boxes :: "aabox list" where
  "many_boxes = replicate 66 (0, 0, 10, 10)"

definition ones_mem :: iou_mem where
  "ones_mem = \<lparr>iou_coeffs = replicate 66 (replicate 66 1), mask_w = replicate 66 (replicate 2 0)\<rparr>"

text \<open>
  A bit matrix and a memory for the examples: two shapes, the second overlapped by
  the first.
\<close>

definition demo_mask :: "bitvec_t list list" where
  "demo_mask = [[2], [0]]"

definition demo_mem :: "real collect_mem" where
  "demo_mem = \<lparr>remv = [0], scores = [9/10, 3/5], suppressed = [False, False]\<rparr>"

section \<open>Auxiliary facts\<close>

subsection \<open>Bits and cells\<close>

lemma FLAG_WIDTH_64: "FLAG_WIDTH = 64"
  by (simp add: FLAG_WIDTH_def FLAG_BITS_def)

lemma test_bit_iff: "(w AND push_bit k 1 \<noteq> 0) = bit (w :: bitvec_t) k"
  by (simp add: bit_iff_and_push_bit_not_eq_0)

lemma bit_set_bit_iff: "bit ((w :: bitvec_t) OR push_bit i 1) k \<longleftrightarrow> bit w k \<or> (k = i \<and> i < 64)"
  by (auto simp add: bit_simps)

lemma bit_lt_64: "bit (w :: bitvec_t) k \<Longrightarrow> k < 64"
  using bit_imp_le_length[of w k] by simp

lemma upd2_nth:
  "upd2 m r c v ! i ! j =
     (if i = r \<and> j = c \<and> r < length m \<and> c < length (m ! r) then v else m ! i ! j)"
  by (cases "r < length m"; cases "i = r"; cases "j = c"; cases "c < length (m ! r)")
     (simp_all add: upd2_def list_update_beyond not_less)

lemma length_upd2 [simp]: "length (upd2 m r c v) = length m"
  by (simp add: upd2_def)

lemma length_upd2_row [simp]: "length (upd2 m r c v ! i) = length (m ! i)"
  by (cases "r < length m"; cases "i = r") (simp_all add: upd2_def list_update_beyond not_less)

subsection \<open>The bit matrix of the pairwise kernel\<close>

lemma body_fst:
  "bit (fst (iou_loop_body fns S bcur bb thr p idx i s)) k \<longleftrightarrow>
     bit (fst s) k \<or> (k = i \<and> i < 64 \<and> box_iou fns bcur (bb ! i) > thr)"
  by (auto simp add: iou_loop_body_def Let_def bit_simps)

lemma fold_body_fst:
  "bit (fst (fold (iou_loop_body fns S bcur bb thr p idx) [a..<b] s)) k \<longleftrightarrow>
     bit (fst s) k \<or> (a \<le> k \<and> k < b \<and> k < 64 \<and> box_iou fns bcur (bb ! k) > thr)"
proof (induction b)
  case 0
  then show ?case by simp
next
  case (Suc b)
  show ?case
  proof (cases "a \<le> b")
    case True
    then show ?thesis
      using Suc by (auto simp add: body_fst less_Suc_eq)
  next
    case False
    then show ?thesis by auto
  qed
qed

lemma iou_thread_mask_bit:
  assumes "t < 64"
  shows "bit (mask_w (iou_thread fns S boxes order thr p (r, c, t) m) ! i ! j) k \<longleftrightarrow>
    (if r \<le> c \<and> r * 64 + t < length boxes \<and> i = r * 64 + t \<and> j = c \<and>
        i < length (mask_w m) \<and> c < length (mask_w m ! i)
     then overlap_bit fns boxes order thr i j k
     else bit (mask_w m ! i ! j) k)"
proof (cases "r \<le> c \<and> r * 64 + t < length boxes")
  case False
  then show ?thesis
    using assms by (auto simp add: iou_thread_def FLAG_WIDTH_64 Let_def)
next
  case True
  then have act: "\<not> c < r" "t < min (length boxes - r * 64) 64"
    using assms by auto
  have geo: "(if r = c then t + 1 else 0) \<le> k \<longleftrightarrow> r * 64 + t < c * 64 + k" if "k < 64"
    using True assms that by (auto split: if_splits)
  show ?thesis
    using True assms
    by (auto simp add: iou_thread_def FLAG_WIDTH_64 Let_def act upd2_nth fold_body_fst
        overlap_bit_def sorted_iou_def geo)
qed

lemma iou_thread_mask_shape:
  "length (mask_w (iou_thread fns S boxes order thr p u m)) = length (mask_w m) \<and>
   length (mask_w (iou_thread fns S boxes order thr p u m) ! i) = length (mask_w m ! i)"
  by (cases u) (simp add: iou_thread_def Let_def)

lemma run_units_mask_shape:
  "length (mask_w (run_units fns S boxes order thr p us m)) = length (mask_w m) \<and>
   length (mask_w (run_units fns S boxes order thr p us m) ! i) = length (mask_w m ! i)"
  unfolding run_units_def
  by (induction us arbitrary: m) (simp_all add: iou_thread_mask_shape)

lemma run_units_snoc:
  "run_units fns S boxes order thr p (us @ [u]) m =
     iou_thread fns S boxes order thr p u (run_units fns S boxes order thr p us m)"
  by (simp add: run_units_def)

lemma run_units_mask_sound:
  assumes "\<forall>u \<in> set us. snd (snd u) < 64"
    and "\<forall>k. bit (mask_w m ! i ! j) k \<longrightarrow> overlap_bit fns boxes order thr i j k"
  shows "bit (mask_w (run_units fns S boxes order thr p us m) ! i ! j) k
           \<Longrightarrow> overlap_bit fns boxes order thr i j k"
  using assms(1)
proof (induction us arbitrary: k rule: rev_induct)
  case Nil
  then show ?case using assms(2) by (simp add: run_units_def)
next
  case (snoc u us)
  obtain r c t where u: "u = (r, c, t)" by (cases u)
  have t: "t < 64" using snoc.prems(2) u by simp
  show ?case
    using snoc.prems(1) snoc.IH[of k] snoc.prems(2)
    unfolding run_units_snoc u iou_thread_mask_bit[OF t]
    by (auto split: if_splits)
qed

lemma run_units_mask_complete:
  assumes "\<forall>u \<in> set us. snd (snd u) < 64"
    and "(i div 64, j, i mod 64) \<in> set us"
    and "i div 64 \<le> j" "i < length boxes" "i < length (mask_w m)" "j < length (mask_w m ! i)"
  shows "bit (mask_w (run_units fns S boxes order thr p us m) ! i ! j) k
           \<longleftrightarrow> overlap_bit fns boxes order thr i j k"
  using assms(1,2)
proof (induction us rule: rev_induct)
  case Nil
  then show ?case by simp
next
  case (snoc u us)
  obtain r c t where u: "u = (r, c, t)" by (cases u)
  have t: "t < 64" using snoc.prems(1) u by simp
  have shape: "i < length (mask_w (run_units fns S boxes order thr p us m))"
      "j < length (mask_w (run_units fns S boxes order thr p us m) ! i)"
    using assms(5,6) by (simp_all add: run_units_mask_shape)
  show ?case
  proof (cases "u = (i div 64, j, i mod 64)")
    case True
    then have "r = i div 64" "c = j" "t = i mod 64" using u by simp_all
    then show ?thesis
      unfolding run_units_snoc u iou_thread_mask_bit[OF t]
      using assms(3,4) shape by simp
  next
    case False
    then have mem: "(i div 64, j, i mod 64) \<in> set us" using snoc.prems(2) by simp
    have IH: "bit (mask_w (run_units fns S boxes order thr p us m) ! i ! j) k
           \<longleftrightarrow> overlap_bit fns boxes order thr i j k"
      using snoc.IH mem snoc.prems(1) by simp
    show ?thesis
      unfolding run_units_snoc u iou_thread_mask_bit[OF t]
      using IH by simp
  qed
qed

lemma set_grid_units:
  "set (grid_units nb) = {(r, c, t). r < nb \<and> c < nb \<and> t < 64}"
  by (force simp add: grid_units_def FLAG_WIDTH_64)

lemma divup_64: "j < divup n FLAG_WIDTH \<longleftrightarrow> j * 64 < n"
  by (auto simp add: divup_def FLAG_WIDTH_64 less_mult_imp_div_less div_less_iff_less_mult)

lemma overlap_bit_geo:
  "overlap_bit fns boxes order thr i j k \<Longrightarrow> i div 64 \<le> j \<and> i < length boxes \<and> k < 64"
  by (auto simp add: overlap_bit_def FLAG_WIDTH_64 div_le_mono less_mult_imp_div_less
      intro: Suc_leI)

lemma iou_kernel_mask:
  assumes "i < length boxes" "j < divup (length boxes) FLAG_WIDTH"
  shows "bit (mask_w (nms2d_iou_kernel fns S boxes order thr p (divup (length boxes) FLAG_WIDTH)
            \<lparr>iou_coeffs = c0,
              mask_w = replicate (length boxes) (replicate (divup (length boxes) FLAG_WIDTH) 0)\<rparr>)
          ! i ! j) k
         \<longleftrightarrow> overlap_bit fns boxes order thr i j k"
    (is "bit (mask_w ?m ! i ! j) k \<longleftrightarrow> ?P")
proof
  assume b: "bit (mask_w ?m ! i ! j) k"
  show ?P
    using assms
    by (intro run_units_mask_sound[OF _ _ b[unfolded nms2d_iou_kernel_def]])
       (auto simp add: set_grid_units)
next
  assume P: ?P
  then have "i div 64 \<le> j" using overlap_bit_geo by blast
  moreover have "i div 64 < divup (length boxes) FLAG_WIDTH"
    using assms(2) calculation by simp
  ultimately have "bit (mask_w ?m ! i ! j) k \<longleftrightarrow> ?P"
    unfolding nms2d_iou_kernel_def
    using assms
    by (intro run_units_mask_complete) (auto simp add: set_grid_units)
  then show "bit (mask_w ?m ! i ! j) k" using P by simp
qed

subsection \<open>The coefficient tensor of the pairwise kernel\<close>

lemma upd2_zero:
  assumes "\<forall>r \<in> set c. \<forall>x \<in> set r. x = (0::real)"
  shows "upd2 c idx i (c ! idx ! i * x) = c"
proof (cases "idx < length c \<and> i < length (c ! idx)")
  case True
  then have "c ! idx ! i = 0" using assms by (metis nth_mem)
  then have "(c ! idx)[i := c ! idx ! i * x] = c ! idx"
    by (metis list_update_id mult_zero_left)
  then show ?thesis by (simp add: upd2_def)
next
  case False
  then show ?thesis
    by (auto simp add: upd2_def list_update_beyond not_less)
qed

lemma body_snd_zero:
  assumes "\<forall>r \<in> set (snd s). \<forall>x \<in> set r. x = 0"
  shows "snd (iou_loop_body fns S bcur bb thr p idx i s) = snd s"
  using assms by (cases S) (simp_all add: iou_loop_body_def Let_def upd2_zero)

lemma fold_body_snd_zero:
  assumes "\<forall>r \<in> set (snd s). \<forall>x \<in> set r. x = 0"
  shows "snd (fold (iou_loop_body fns S bcur bb thr p idx) xs s) = snd s"
  using assms
proof (induction xs arbitrary: s)
  case Nil
  then show ?case by simp
next
  case (Cons a xs)
  have "snd (iou_loop_body fns S bcur bb thr p idx a s) = snd s"
    using Cons.prems by (rule body_snd_zero)
  then show ?case using Cons by simp
qed

lemma iou_thread_coeffs_zero:
  assumes "\<forall>r \<in> set (iou_coeffs m). \<forall>x \<in> set r. x = 0"
  shows "iou_coeffs (iou_thread fns S boxes order thr p u m) = iou_coeffs m"
  using assms by (cases u) (simp add: iou_thread_def Let_def fold_body_snd_zero)

lemma run_units_coeffs_zero:
  assumes "\<forall>r \<in> set (iou_coeffs m). \<forall>x \<in> set r. x = 0"
  shows "iou_coeffs (run_units fns S boxes order thr p us m) = iou_coeffs m"
  using assms unfolding run_units_def
proof (induction us arbitrary: m)
  case Nil
  then show ?case by simp
next
  case (Cons u us)
  then show ?case by (simp add: iou_thread_coeffs_zero)
qed

lemma iou_kernel_coeffs:
  "iou_coeffs (nms2d_iou_kernel fns S boxes order thr p nb
      \<lparr>iou_coeffs = (if S = HARD then [] else replicate n (replicate n 0)), mask_w = m0\<rparr>)
   = (if S = HARD then [] else replicate n (replicate n 0))"
  unfolding nms2d_iou_kernel_def by (rule trans[OF run_units_coeffs_zero]) auto

lemma iou_kernel_mask_shape:
  "length (mask_w (nms2d_iou_kernel fns S boxes order thr p nb m)) = length (mask_w m)"
  "length (mask_w (nms2d_iou_kernel fns S boxes order thr p nb m) ! i) = length (mask_w m ! i)"
  unfolding nms2d_iou_kernel_def by (simp_all add: run_units_mask_shape)

subsection \<open>The steps of the collecting kernel\<close>

lemma nth_update_bit:
  "bit (xs[j := (xs ! j) OR w] ! c) b \<longleftrightarrow>
     bit ((xs ! c) :: bitvec_t) b \<or> (c = j \<and> j < length xs \<and> bit w b)"
  by (cases "j < length xs"; cases "c = j") (auto simp add: bit_or_iff list_update_beyond not_less)

lemma soft_bit_step_suppressed [simp]:
  "suppressed (soft_bit_step msk coeffs thr i j k st) = suppressed st"
  by (simp add: soft_bit_step_def Let_def)

lemma soft_bit_step_lengths [simp]:
  "length (remv (soft_bit_step msk coeffs thr i j k st)) = length (remv st)"
  "length (scores (soft_bit_step msk coeffs thr i j k st)) = length (scores st)"
  by (simp_all add: soft_bit_step_def Let_def)

lemma soft_bit_step_mono:
  "bit (remv st ! c) b \<Longrightarrow> bit (remv (soft_bit_step msk coeffs thr i j k st) ! c) b"
  by (simp add: soft_bit_step_def Let_def nth_update_bit del: push_bit_of_1)

lemma soft_bit_step_new:
  "bit (remv (soft_bit_step msk coeffs thr i j k st) ! c) b
     \<Longrightarrow> bit (remv st ! c) b \<or> (c = j \<and> b = k \<and> bit (msk ! i ! j) k)"
  by (auto simp add: soft_bit_step_def Let_def nth_update_bit test_bit_iff bit_simps
      simp del: push_bit_of_1 split: if_splits)

lemma fold_soft_suppressed [simp]:
  "suppressed (fold (soft_bit_step msk coeffs thr i j) ks st) = suppressed st"
  by (induction ks arbitrary: st) simp_all

lemma fold_soft_lengths [simp]:
  "length (remv (fold (soft_bit_step msk coeffs thr i j) ks st)) = length (remv st)"
  "length (scores (fold (soft_bit_step msk coeffs thr i j) ks st)) = length (scores st)"
  by (induction ks arbitrary: st) simp_all

lemma fold_soft_mono:
  "bit (remv st ! c) b \<Longrightarrow> bit (remv (fold (soft_bit_step msk coeffs thr i j) ks st) ! c) b"
  by (induction ks arbitrary: st) (simp_all add: soft_bit_step_mono)

lemma fold_soft_new:
  "bit (remv (fold (soft_bit_step msk coeffs thr i j) ks st) ! c) b
     \<Longrightarrow> bit (remv st ! c) b \<or> (c = j \<and> bit (msk ! i ! j) b)"
proof (induction ks arbitrary: st)
  case Nil
  then show ?case by simp
next
  case (Cons k ks)
  from Cons.IH[of "soft_bit_step msk coeffs thr i j k st"] Cons.prems
  show ?case using soft_bit_step_new[of msk coeffs thr i j k st c b] by auto
qed

lemma block_step_suppressed [simp]:
  "suppressed (block_step S msk coeffs thr i j st) = suppressed st"
  by (simp add: block_step_def)

lemma block_step_lengths [simp]:
  "length (remv (block_step S msk coeffs thr i j st)) = length (remv st)"
  "length (scores (block_step S msk coeffs thr i j st)) = length (scores st)"
  by (simp_all add: block_step_def)

lemma block_step_mono:
  "bit (remv st ! c) b \<Longrightarrow> bit (remv (block_step S msk coeffs thr i j st) ! c) b"
  by (simp add: block_step_def nth_update_bit fold_soft_mono)

lemma block_step_new:
  "bit (remv (block_step S msk coeffs thr i j st) ! c) b
     \<Longrightarrow> bit (remv st ! c) b \<or> (c = j \<and> bit (msk ! i ! j) b)"
  using fold_soft_new[of msk coeffs thr i j "[0..<FLAG_WIDTH]" st c b]
  by (auto simp add: block_step_def nth_update_bit split: if_splits)

lemma block_step_hard:
  "bit (remv (block_step HARD msk coeffs thr i j st) ! c) b
     \<longleftrightarrow> bit (remv st ! c) b \<or> (c = j \<and> j < length (remv st) \<and> bit (msk ! i ! j) b)"
  by (simp add: block_step_def nth_update_bit)

lemma fold_block_suppressed [simp]:
  "suppressed (fold (block_step S msk coeffs thr i) js st) = suppressed st"
  by (induction js arbitrary: st) simp_all

lemma fold_block_lengths [simp]:
  "length (remv (fold (block_step S msk coeffs thr i) js st)) = length (remv st)"
  "length (scores (fold (block_step S msk coeffs thr i) js st)) = length (scores st)"
  by (induction js arbitrary: st) simp_all

lemma fold_block_mono:
  "bit (remv st ! c) b \<Longrightarrow> bit (remv (fold (block_step S msk coeffs thr i) js st) ! c) b"
  by (induction js arbitrary: st) (simp_all add: block_step_mono)

lemma fold_block_new:
  "bit (remv (fold (block_step S msk coeffs thr i) js st) ! c) b
     \<Longrightarrow> bit (remv st ! c) b \<or> (c \<in> set js \<and> bit (msk ! i ! c) b)"
proof (induction js arbitrary: st)
  case Nil
  then show ?case by simp
next
  case (Cons j js)
  from Cons.IH[of "block_step S msk coeffs thr i j st"] Cons.prems
  show ?case using block_step_new[of S msk coeffs thr i j st c b] by auto
qed

lemma fold_block_hard:
  "bit (remv (fold (block_step HARD msk coeffs thr i) js st) ! c) b
     \<longleftrightarrow> bit (remv st ! c) b \<or> (c \<in> set js \<and> c < length (remv st) \<and> bit (msk ! i ! c) b)"
  by (induction js arbitrary: st) (auto simp add: block_step_hard)

lemma nth_update_True: "xs[j := True] ! s \<longleftrightarrow> xs ! s \<or> (s = j \<and> j < length xs)"
  by (cases "j < length xs"; cases "s = j") (auto simp add: list_update_beyond not_less)

lemma collect_step_lengths [simp]:
  "length (remv (collect_step S order msk coeffs thr i st)) = length (remv st)"
  "length (scores (collect_step S order msk coeffs thr i st)) = length (scores st)"
  "length (suppressed (collect_step S order msk coeffs thr i st)) = length (suppressed st)"
  by (simp_all add: collect_step_def Let_def)

lemma collect_step_mono:
  "bit (remv st ! c) b \<Longrightarrow> bit (remv (collect_step S order msk coeffs thr i st) ! c) b"
  by (simp add: collect_step_def Let_def fold_block_mono)

lemma collect_step_new:
  "bit (remv (collect_step S order msk coeffs thr i st) ! c) b
     \<Longrightarrow> bit (remv st ! c) b \<or>
         (\<not> remv_bit st i \<and> i div FLAG_WIDTH \<le> c \<and> c < size1 msk \<and> bit (msk ! i ! c) b)"
  using fold_block_new[of S msk coeffs thr i "[i div FLAG_WIDTH..<size1 msk]" st c b]
  by (auto simp add: collect_step_def Let_def test_bit_iff remv_bit_def
      simp del: push_bit_of_1 split: if_splits)

lemma collect_step_hard:
  "\<not> remv_bit st i \<Longrightarrow>
   bit (remv (collect_step HARD order msk coeffs thr i st) ! c) b
     \<longleftrightarrow> bit (remv st ! c) b \<or>
         (i div FLAG_WIDTH \<le> c \<and> c < size1 msk \<and> c < length (remv st) \<and> bit (msk ! i ! c) b)"
  by (auto simp add: collect_step_def Let_def test_bit_iff remv_bit_def fold_block_hard
      simp del: push_bit_of_1)

lemma collect_step_suppressed:
  "suppressed (collect_step S order msk coeffs thr i st) ! s
     \<longleftrightarrow> suppressed st ! s \<or>
         (s = order ! i \<and> s < length (suppressed st) \<and> remv_bit st i)"
  by (auto simp add: collect_step_def Let_def test_bit_iff remv_bit_def nth_update_True
      simp del: push_bit_of_1)

lemma collect_upto_0 [simp]: "collect_upto S order msk coeffs thr 0 st = st"
  by (simp add: collect_upto_def)

lemma collect_upto_Suc [simp]:
  "collect_upto S order msk coeffs thr (Suc n) st =
     collect_step S order msk coeffs thr n (collect_upto S order msk coeffs thr n st)"
  by (simp add: collect_upto_def)

lemma nms_collect_kernel_upto:
  "nms_collect_kernel S order msk coeffs thr st = collect_upto S order msk coeffs thr (size0 msk) st"
  by (simp add: nms_collect_kernel_def collect_upto_def)

lemma collect_upto_lengths [simp]:
  "length (remv (collect_upto S order msk coeffs thr n st)) = length (remv st)"
  "length (scores (collect_upto S order msk coeffs thr n st)) = length (scores st)"
  "length (suppressed (collect_upto S order msk coeffs thr n st)) = length (suppressed st)"
  by (induction n) simp_all

lemma collect_upto_mono:
  assumes "a \<le> b"
  shows "bit (remv (collect_upto S order msk coeffs thr a st) ! c) k
           \<Longrightarrow> bit (remv (collect_upto S order msk coeffs thr b st) ! c) k"
    and "suppressed (collect_upto S order msk coeffs thr a st) ! s
           \<Longrightarrow> suppressed (collect_upto S order msk coeffs thr b st) ! s"
  using assms
proof (induction b)
  case 0
  { case 1 then show ?case by simp }
  { case 2 then show ?case by simp }
next
  case (Suc b)
  { case 1 then show ?case
      using Suc(1) by (cases "a = Suc b") (auto simp add: collect_step_mono) }
  { case 2 then show ?case
      using Suc(2) by (cases "a = Suc b") (auto simp add: collect_step_suppressed) }
qed

lemma collect_upto_new:
  assumes "a \<le> b"
    and "bit (remv (collect_upto S order msk coeffs thr b st) ! c) k"
  shows "bit (remv (collect_upto S order msk coeffs thr a st) ! c) k \<or>
         (\<exists>i. a \<le> i \<and> i < b \<and> \<not> remv_bit (collect_upto S order msk coeffs thr i st) i \<and>
              i div FLAG_WIDTH \<le> c \<and> c < size1 msk \<and> bit (msk ! i ! c) k)"
  using assms
proof (induction b)
  case 0
  then show ?case by simp
next
  case (Suc b)
  show ?case
  proof (cases "a = Suc b")
    case True
    then show ?thesis using Suc.prems by simp
  next
    case False
    then have ab: "a \<le> b" using Suc.prems by simp
    from Suc.prems(2) collect_step_new[of S order msk coeffs thr b
        "collect_upto S order msk coeffs thr b st" c k]
    consider "bit (remv (collect_upto S order msk coeffs thr b st) ! c) k"
      | "\<not> remv_bit (collect_upto S order msk coeffs thr b st) b \<and>
         b div FLAG_WIDTH \<le> c \<and> c < size1 msk \<and> bit (msk ! b ! c) k"
      by auto
    then show ?thesis
    proof cases
      case 1
      from Suc.IH[OF ab 1] show ?thesis by (auto intro: less_SucI)
    next
      case 2
      then show ?thesis using ab by auto
    qed
  qed
qed

lemma collect_upto_suppressed:
  "suppressed (collect_upto S order msk coeffs thr n st) ! s \<longleftrightarrow>
     suppressed st ! s \<or>
     (\<exists>i<n. order ! i = s \<and> s < length (suppressed st) \<and>
        remv_bit (collect_upto S order msk coeffs thr i st) i)"
  by (induction n) (auto simp add: collect_step_suppressed less_Suc_eq)

subsection \<open>The pairwise phase of the host function\<close>

lemma pairwise_phase_mask:
  assumes "i < length boxes" "j < divup (length boxes) FLAG_WIDTH"
  shows "bit (mask_w (pairwise_phase fns S boxes order thr p) ! i ! j) k
           \<longleftrightarrow> overlap_bit fns boxes order thr i j k"
  unfolding pairwise_phase_def Let_def using assms by (rule iou_kernel_mask)

lemma pairwise_phase_coeffs:
  "iou_coeffs (pairwise_phase fns S boxes order thr p) =
     (if S = HARD then [] else replicate (length boxes) (replicate (length boxes) 0))"
  unfolding pairwise_phase_def Let_def by (rule iou_kernel_coeffs)

lemma pairwise_phase_size0:
  "size0 (mask_w (pairwise_phase fns S boxes order thr p)) = length boxes"
  by (simp add: pairwise_phase_def Let_def size0_def iou_kernel_mask_shape)

lemma divup_0 [simp]: "divup 0 FLAG_WIDTH = 0"
  by (simp add: divup_def FLAG_WIDTH_64)

lemma pairwise_phase_size1:
  "size1 (mask_w (pairwise_phase fns S boxes order thr p)) = divup (length boxes) FLAG_WIDTH"
proof (cases boxes)
  case Nil
  then show ?thesis
    by (simp add: pairwise_phase_def Let_def nms2d_iou_kernel_def run_units_def grid_units_def size1_def)
next
  case (Cons b bs)
  let ?m = "mask_w (pairwise_phase fns S boxes order thr p)"
  have "length ?m = length boxes"
    by (simp add: pairwise_phase_def Let_def iou_kernel_mask_shape)
  then obtain r rs where m: "?m = r # rs" using Cons by (cases ?m) auto
  have "length (?m ! 0) = divup (length boxes) FLAG_WIDTH"
    using Cons by (simp add: pairwise_phase_def Let_def iou_kernel_mask_shape)
  then show ?thesis using m by (simp add: size1_def)
qed

subsection \<open>Monotonicity of the collecting kernel\<close>

lemma word_subset_iff: "(w AND w' = w) \<longleftrightarrow> (\<forall>k. bit (w :: bitvec_t) k \<longrightarrow> bit w' k)"
proof
  assume "w AND w' = w"
  then have "\<And>k. bit w k = bit (w AND w') k" by simp
  then have "\<And>k. bit w k = (bit w k \<and> bit w' k)" by (simp add: bit_and_iff)
  then show "\<forall>k. bit w k \<longrightarrow> bit w' k" by blast
next
  assume "\<forall>k. bit w k \<longrightarrow> bit w' k"
  then show "w AND w' = w" by (auto simp add: bit_eq_iff bit_and_iff)
qed

lemma mem_le_iff:
  "mem_le st st' \<longleftrightarrow>
     length (remv st) = length (remv st') \<and>
     length (suppressed st) = length (suppressed st') \<and>
     (\<forall>c < length (remv st). \<forall>k. bit (remv st ! c) k \<longrightarrow> bit (remv st' ! c) k) \<and>
     (\<forall>s < length (suppressed st). suppressed st ! s \<longrightarrow> suppressed st' ! s)"
  by (auto simp add: mem_le_def list_all2_conv_all_nth word_subset_iff)

lemma mem_le_soft_bit_step: "mem_le st (soft_bit_step msk coeffs thr i j k st)"
  by (simp add: mem_le_iff soft_bit_step_mono)

lemma mem_le_block_step: "mem_le st (block_step S msk coeffs thr i j st)"
  by (simp add: mem_le_iff block_step_mono)

lemma mem_le_collect_step: "mem_le st (collect_step S order msk coeffs thr i st)"
  by (simp add: mem_le_iff collect_step_mono collect_step_suppressed)

lemma mem_le_collect_upto:
  "a \<le> b \<Longrightarrow> mem_le (collect_upto S order msk coeffs thr a st) (collect_upto S order msk coeffs thr b st)"
  by (simp add: mem_le_iff collect_upto_mono)

lemmas eval_defs = collect_upto_def collect_step_def block_step_def soft_bit_step_def
  size0_def size1_def FLAG_WIDTH_64 remv_bit_def Let_def

subsection \<open>The host functions\<close>

lemma templated_eq:
  "nms2d_cuda_templated fns S boxes order scores0 thr sthr p sup0 =
     collect_upto S order (mask_w (pairwise_phase fns S boxes order thr p))
       (iou_coeffs (pairwise_phase fns S boxes order thr p)) sthr (length boxes)
       \<lparr>remv = replicate (divup (length boxes) FLAG_WIDTH) 0, scores = scores0, suppressed = sup0\<rparr>"
  by (simp add: nms2d_cuda_templated_def Let_def nms_collect_kernel_upto pairwise_phase_size0)

lemma perm_order:
  assumes "mset order = mset [0..<n]"
  shows "length order = n" "distinct order" "set order = {0..<n}"
proof -
  show "length order = n" using assms by (metis length_upt mset_eq_length minus_nat.diff_0)
  show "distinct order" using assms by (metis distinct_upt mset_eq_imp_distinct_iff)
  show "set order = {0..<n}" using assms by (metis mset_eq_setD set_upt)
qed

lemma perm_order_nth:
  assumes "mset order = mset [0..<n]" "i < n"
  shows "order ! i < n"
  using perm_order[OF assms(1)] assms(2) by (metis atLeastLessThan_iff nth_mem)

lemma perm_order_inj:
  assumes "mset order = mset [0..<n]" "i < n" "j < n" "order ! i = order ! j"
  shows "i = j"
  using perm_order[OF assms(1)] assms(2-4) by (simp add: nth_eq_iff_index_eq)

lemma div_lt_divup: "i < n \<Longrightarrow> i div FLAG_WIDTH < divup n FLAG_WIDTH"
proof -
  assume "i < n"
  moreover have "i div 64 * 64 \<le> i" by simp
  ultimately have "i div 64 * 64 < n" by (rule le_less_trans[rotated])
  then show ?thesis using divup_64[of "i div 64" n] by (simp add: FLAG_WIDTH_64)
qed

lemma remv_bit_init:
  "i < n \<Longrightarrow> \<not> remv_bit \<lparr>remv = replicate (divup n FLAG_WIDTH) 0, scores = sc, suppressed = sp\<rparr> i"
  by (simp add: remv_bit_def div_lt_divup)

lemma overlap_bit_pos:
  "overlap_bit fns boxes order thr i' (i div FLAG_WIDTH) (i mod FLAG_WIDTH) \<longleftrightarrow>
     i' < i \<and> i < length boxes \<and> sorted_iou fns boxes order i' i > thr"
  by (auto simp add: overlap_bit_def FLAG_WIDTH_64)

text \<open>The accumulator bit of a position does not change from its own round on.\<close>

lemma templated_remv_bit_stable:
  fixes fns S boxes order thr p sthr st
  defines "U \<equiv> \<lambda>m. collect_upto S order (mask_w (pairwise_phase fns S boxes order thr p))
       (iou_coeffs (pairwise_phase fns S boxes order thr p)) sthr m st"
  assumes "i \<le> m" "m \<le> length boxes" "i < length boxes"
  shows "remv_bit (U m) i \<longleftrightarrow> remv_bit (U i) i"
proof
  assume "remv_bit (U i) i"
  then show "remv_bit (U m) i"
    unfolding U_def remv_bit_def using collect_upto_mono(1)[OF assms(2)] by blast
next
  assume b: "remv_bit (U m) i"
  show "remv_bit (U i) i"
  proof (rule ccontr)
    assume n: "\<not> remv_bit (U i) i"
    from collect_upto_new[OF assms(2) b[unfolded U_def remv_bit_def]] n
    obtain i' where i': "i \<le> i'" "i' < m" "i div FLAG_WIDTH < size1 (mask_w (pairwise_phase fns S boxes order thr p))"
      "bit (mask_w (pairwise_phase fns S boxes order thr p) ! i' ! (i div FLAG_WIDTH)) (i mod FLAG_WIDTH)"
      unfolding U_def remv_bit_def by blast
    have "overlap_bit fns boxes order thr i' (i div FLAG_WIDTH) (i mod FLAG_WIDTH)"
      using i' assms(3) by (simp add: pairwise_phase_mask pairwise_phase_size1)
    then show False using i'(1) by (simp add: overlap_bit_pos)
  qed
qed

lemma templated_suppressed_iff:
  assumes "mset order = mset [0..<length boxes]" and "i < length boxes"
  shows "suppressed (nms2d_cuda_templated fns S boxes order scores0 thr sthr p
                       (replicate (length boxes) False)) ! (order ! i)
         \<longleftrightarrow> remv_bit (nms2d_cuda_templated fns S boxes order scores0 thr sthr p
                       (replicate (length boxes) False)) i"
proof -
  let ?st = "\<lparr>remv = replicate (divup (length boxes) FLAG_WIDTH) 0, scores = scores0,
              suppressed = replicate (length boxes) False\<rparr>"
  let ?U = "\<lambda>m. collect_upto S order (mask_w (pairwise_phase fns S boxes order thr p))
       (iou_coeffs (pairwise_phase fns S boxes order thr p)) sthr m ?st"
  have oi: "order ! i < length boxes" using perm_order_nth[OF assms] .
  have "suppressed (?U (length boxes)) ! (order ! i) \<longleftrightarrow>
          (\<exists>i'<length boxes. order ! i' = order ! i \<and> remv_bit (?U i') i')"
    using oi by (simp add: collect_upto_suppressed)
  also have "\<dots> \<longleftrightarrow> remv_bit (?U i) i"
    using assms perm_order_inj[OF assms(1)] by blast
  also have "\<dots> \<longleftrightarrow> remv_bit (?U (length boxes)) i"
    using templated_remv_bit_stable[of i "length boxes" boxes S order fns thr p sthr ?st] assms(2)
    by simp
  finally show ?thesis by (simp add: templated_eq)
qed

lemma templated_isolated:
  assumes "mset order = mset [0..<length boxes]" and "s < length boxes"
    and "\<forall>t<length boxes. t \<noteq> s \<longrightarrow> box_iou fns (boxes ! t) (boxes ! s) \<le> thr"
  shows "\<not> suppressed (nms2d_cuda_templated fns S boxes order scores0 thr sthr p
                       (replicate (length boxes) False)) ! s"
proof
  let ?st = "\<lparr>remv = replicate (divup (length boxes) FLAG_WIDTH) 0, scores = scores0,
              suppressed = replicate (length boxes) False\<rparr>"
  let ?msk = "mask_w (pairwise_phase fns S boxes order thr p)"
  let ?U = "\<lambda>m. collect_upto S order ?msk
       (iou_coeffs (pairwise_phase fns S boxes order thr p)) sthr m ?st"
  assume "suppressed (nms2d_cuda_templated fns S boxes order scores0 thr sthr p
                       (replicate (length boxes) False)) ! s"
  then obtain i where i: "i < length boxes" "order ! i = s" "remv_bit (?U i) i"
    using assms(2) by (auto simp add: templated_eq collect_upto_suppressed)
  have "\<not> remv_bit (?U 0) i" using i(1) by (simp add: remv_bit_init)
  with collect_upto_new[of 0 i S order ?msk _ sthr ?st "i div FLAG_WIDTH" "i mod FLAG_WIDTH"] i(3)
  obtain i' where i': "i' < i" "i div FLAG_WIDTH < size1 ?msk"
      "bit (?msk ! i' ! (i div FLAG_WIDTH)) (i mod FLAG_WIDTH)"
    unfolding remv_bit_def by auto
  have "overlap_bit fns boxes order thr i' (i div FLAG_WIDTH) (i mod FLAG_WIDTH)"
    using i' i(1) by (simp add: pairwise_phase_mask pairwise_phase_size1)
  then have ov: "box_iou fns (boxes ! (order ! i')) (boxes ! s) > thr"
    using i(2) by (simp add: overlap_bit_pos sorted_iou_def)
  have "order ! i' \<noteq> s"
    using perm_order_inj[OF assms(1), of i' i] i' i by auto
  moreover have "order ! i' < length boxes"
    using perm_order_nth[OF assms(1)] i' i(1) by simp
  ultimately show False using assms(3) ov by force
qed

lemma argsort_desc_ok: "is_argsort_desc xs (argsort_desc xs)"
proof -
  have "sorted (map (\<lambda>i. - (xs ! i)) (argsort_desc xs))"
    unfolding argsort_desc_def by (rule sorted_sort_key)
  then have "sorted_wrt (\<lambda>a b. xs ! a \<ge> xs ! b) (argsort_desc xs)"
    by (simp add: sorted_map)
  then show ?thesis by (simp add: is_argsort_desc_def argsort_desc_def)
qed

lemma length_index_mask:
  "length xs = length bs \<Longrightarrow> length (index_mask xs bs) = length (filter id bs)"
  unfolding index_mask_def
  by (induction xs bs rule: list_induct2) simp_all

lemma length_survivors:
  "length xs = length scores0 \<Longrightarrow>
     length (survivors xs scores0 t) = length (filter (\<lambda>s. s > t) scores0)"
  by (simp add: survivors_def length_index_mask filter_map comp_def)

lemma survivors_scores: "survivors scores0 scores0 t = filter (\<lambda>s. s > t) scores0"
  unfolding survivors_def index_mask_def
  by (induction scores0) simp_all

lemma survivors_zip:
  "length xs = length scores0 \<Longrightarrow>
     survivors xs scores0 t = map fst (filter (\<lambda>(x, s). s > t) (zip xs scores0))"
  unfolding survivors_def index_mask_def
  by (induction xs scores0 rule: list_induct2) simp_all

lemma nms2d_cuda_eq:
  assumes "length boxes = length scores0"
  shows "nms2d_cuda argsort fns boxes scores0 S thr sthr p =
     Inr (suppressed (nms2d_cuda_templated fns S (survivors boxes scores0 sthr)
            (argsort (survivors scores0 scores0 sthr)) (survivors scores0 scores0 sthr)
            thr sthr p (replicate (length (survivors boxes scores0 sthr)) False)))"
  using assms by (simp add: nms2d_cuda_def survivors_def Let_def)

lemma templated_length_suppressed:
  "length (suppressed (nms2d_cuda_templated fns S boxes order scores0 thr sthr p sup0)) = length sup0"
  by (simp add: templated_eq)

subsection \<open>Evaluation\<close>

lemmas kernel_defs = nms2d_cuda_templated_def pairwise_phase_def nms2d_iou_kernel_def run_units_def
  grid_units_def iou_thread_def iou_loop_body_def upd2_def divup_def nms_collect_kernel_def
  collect_step_def block_step_def soft_bit_step_def size0_def size1_def FLAG_WIDTH_64
  remv_bit_def Let_def real_fns_def aabox_iou_def pow_real_def
  upt_rec[of _ "numeral _"] upt_rec[of _ "Suc _"]

lemma survivors_three:
  "survivors three_boxes [3/5, 1/20, 9/10] (1/10) = two_boxes"
  "survivors [3/5, 1/20, 9/10 :: real] [3/5, 1/20, 9/10] (1/10) = [3/5, 9/10]"
  by (simp_all add: survivors_def index_mask_def three_boxes_def two_boxes_def)

lemma argsort_desc_two: "argsort_desc [3/5, 9/10] = [1, 0]"
  by (simp add: argsort_desc_def upt_rec[of _ "numeral _"] upt_rec[of _ "Suc _"])

lemma templated_two_hard:
  "nms2d_cuda_templated (real_fns aabox_iou) HARD two_boxes [1, 0] [3/5, 9/10] (1/2) (1/10) 1
     [False, False]
   = \<lparr>remv = [2], scores = [3/5, 9/10], suppressed = [True, False]\<rparr>"
  by (simp add: kernel_defs two_boxes_def)

lemma replicate_two: "replicate (length two_boxes) False = [False, False]"
  by (simp add: two_boxes_def)

lemma templated_three_hard:
  "nms2d_cuda_templated (real_fns aabox_iou) HARD three_boxes [2, 0, 1] [3/5, 1/2, 9/10] (1/2) (1/10) 1
     [False, False, False]
   = \<lparr>remv = [2], scores = [3/5, 1/2, 9/10], suppressed = [True, False, False]\<rparr>"
  by (simp add: kernel_defs three_boxes_def)

lemma argsort_desc_three: "argsort_desc [3/5, 1/2, 9/10] = [2, 0, 1]"
  by (simp add: argsort_desc_def upt_rec[of _ "numeral _"] upt_rec[of _ "Suc _"])

lemma survivors_all_three:
  "survivors three_boxes [3/5, 1/2, 9/10] (1/10) = three_boxes"
  "survivors [3/5, 1/2, 9/10 :: real] [3/5, 1/2, 9/10] (1/10) = [3/5, 1/2, 9/10]"
  by (simp_all add: survivors_def index_mask_def three_boxes_def)

lemma replicate_three: "replicate (length three_boxes) False = [False, False, False]"
  by (simp add: three_boxes_def)

lemma nms2d_cuda_three_hard:
  "nms2d_cuda argsort_desc (real_fns aabox_iou) three_boxes [3/5, 1/2, 9/10] HARD (1/2) (1/10) 1
     = Inr [True, False, False]"
proof -
  have len: "length three_boxes = length [3/5, 1/2, 9/10 :: real]"
    by (simp add: three_boxes_def)
  show ?thesis
    by (simp only: nms2d_cuda_eq[OF len] survivors_all_three argsort_desc_three replicate_three
        templated_three_hard collect_mem.select_convs)
qed

subsection \<open>Hard suppression keeps no overlapping pair\<close>

lemma templated_hard_kept_later:
  assumes perm: "mset order = mset [0..<length boxes]"
    and ab: "a < b" "b < length boxes"
    and ka: "\<not> suppressed (nms2d_cuda_templated fns HARD boxes order scores0 thr sthr p
                       (replicate (length boxes) False)) ! (order ! a)"
    and ov: "sorted_iou fns boxes order a b > thr"
  shows "suppressed (nms2d_cuda_templated fns HARD boxes order scores0 thr sthr p
                       (replicate (length boxes) False)) ! (order ! b)"
proof -
  let ?n = "length boxes"
  let ?st = "\<lparr>remv = replicate (divup ?n FLAG_WIDTH) 0, scores = scores0,
              suppressed = replicate ?n False\<rparr>"
  let ?msk = "mask_w (pairwise_phase fns HARD boxes order thr p)"
  let ?U = "\<lambda>m. collect_upto HARD order ?msk
       (iou_coeffs (pairwise_phase fns HARD boxes order thr p)) sthr m ?st"
  have a: "a < ?n" using ab by simp
  have "\<not> remv_bit (?U ?n) a"
    using ka templated_suppressed_iff[OF perm a, of fns HARD scores0 thr sthr p]
    by (simp add: templated_eq)
  then have na: "\<not> remv_bit (?U a) a"
    using templated_remv_bit_stable[of a ?n boxes HARD order fns thr p sthr ?st] a by simp
  have bd: "b div FLAG_WIDTH < divup ?n FLAG_WIDTH" using ab(2) by (rule div_lt_divup)
  have "overlap_bit fns boxes order thr a (b div FLAG_WIDTH) (b mod FLAG_WIDTH)"
    using ab ov by (simp add: overlap_bit_pos)
  then have mb: "bit (?msk ! a ! (b div FLAG_WIDTH)) (b mod FLAG_WIDTH)"
    using a bd by (simp add: pairwise_phase_mask)
  have "a div FLAG_WIDTH \<le> b div FLAG_WIDTH"
    using ab(1) by (simp add: div_le_mono)
  then have "bit (remv (?U (Suc a)) ! (b div FLAG_WIDTH)) (b mod FLAG_WIDTH)"
    using na mb bd by (simp add: collect_step_hard pairwise_phase_size1)
  then have "bit (remv (?U ?n) ! (b div FLAG_WIDTH)) (b mod FLAG_WIDTH)"
    using collect_upto_mono(1)[of "Suc a" ?n] a by simp
  then have "remv_bit (?U ?n) b" by (simp add: remv_bit_def)
  then show ?thesis
    using templated_suppressed_iff[OF perm ab(2), of fns HARD scores0 thr sthr p]
    by (simp add: templated_eq)
qed

lemma perm_order_pos:
  assumes "mset order = mset [0..<n]" "s < n"
  obtains a where "a < n" "order ! a = s"
proof -
  have "s \<in> set order" using perm_order(3)[OF assms(1)] assms(2) by simp
  then obtain a where "a < length order" "order ! a = s" by (auto simp add: in_set_conv_nth)
  then show ?thesis using that perm_order(1)[OF assms(1)] by simp
qed

lemma templated_hard_kept_apart:
  assumes perm: "mset order = mset [0..<length boxes]"
    and sym: "\<forall>x y. box_iou fns x y = box_iou fns y x"
    and st: "s < length boxes" "t < length boxes" "s \<noteq> t"
    and ks: "\<not> suppressed (nms2d_cuda_templated fns HARD boxes order scores0 thr sthr p
                       (replicate (length boxes) False)) ! s"
    and kt: "\<not> suppressed (nms2d_cuda_templated fns HARD boxes order scores0 thr sthr p
                       (replicate (length boxes) False)) ! t"
  shows "box_iou fns (boxes ! s) (boxes ! t) \<le> thr"
proof -
  obtain a where a: "a < length boxes" "order ! a = s" using perm_order_pos[OF perm st(1)] .
  obtain b where b: "b < length boxes" "order ! b = t" using perm_order_pos[OF perm st(2)] .
  have "a \<noteq> b" using a b st(3) by auto
  then consider "a < b" | "b < a" by linarith
  then show ?thesis
  proof cases
    case 1
    have "\<not> sorted_iou fns boxes order a b > thr"
      using templated_hard_kept_later[OF perm 1 b(1), of fns scores0 thr sthr p] ks kt a(2) b(2)
      by auto
    then show ?thesis using a(2) b(2) by (simp add: sorted_iou_def)
  next
    case 2
    have "\<not> sorted_iou fns boxes order b a > thr"
      using templated_hard_kept_later[OF perm 2 a(1), of fns scores0 thr sthr p] ks kt a(2) b(2)
      by auto
    then show ?thesis using a(2) b(2) sym by (simp add: sorted_iou_def)
  qed
qed

lemma zip_nth_upt:
  "length xs = length bs \<Longrightarrow> zip xs bs = map (\<lambda>i. (xs ! i, bs ! i)) [0..<length bs]"
  by (rule nth_equalityI) simp_all

lemma index_mask_nth:
  assumes "length xs = length bs"
  shows "index_mask xs bs = map (nth xs) (filter (nth bs) [0..<length bs])"
  unfolding index_mask_def zip_nth_upt[OF assms]
  by (simp add: filter_map comp_def)

lemma survivors_id:
  assumes "length xs = length scores0" "\<forall>x \<in> set scores0. x > t"
  shows "survivors xs scores0 t = xs"
  using assms unfolding survivors_def index_mask_def
  by (induction xs scores0 rule: list_induct2) simp_all

lemma set_index_mask: "set (index_mask xs bs) \<subseteq> set xs"
  unfolding index_mask_def by (auto dest: set_zip_leftD)

lemma kept_apart:
  assumes perm: "mset order = mset [0..<length boxes]"
    and sym: "\<forall>x y. box_iou fns x y = box_iou fns y x"
    and fl: "flags = suppressed (nms2d_cuda_templated fns HARD boxes order scores0 thr sthr p
                       (replicate (length boxes) False))"
    and tq: "t < length (index_mask boxes (map Not flags))"
      "q < length (index_mask boxes (map Not flags))" "t \<noteq> q"
  shows "box_iou fns (index_mask boxes (map Not flags) ! t) (index_mask boxes (map Not flags) ! q) \<le> thr"
proof -
  let ?n = "length boxes"
  let ?K = "filter (nth (map Not flags)) [0..<?n]"
  have lf: "length flags = ?n" by (simp add: fl templated_length_suppressed)
  then have im: "index_mask boxes (map Not flags) = map (nth boxes) ?K"
    using index_mask_nth[of boxes "map Not flags"] by simp
  have lt: "t < length ?K" and lq: "q < length ?K" using tq im by simp_all
  have dK: "distinct ?K" by simp
  have mem: "k \<in> set ?K \<Longrightarrow> k < ?n \<and> \<not> flags ! k" for k
    using lf by auto
  have kt: "?K ! t < ?n \<and> \<not> flags ! (?K ! t)" using mem[of "?K ! t"] lt nth_mem by blast
  have kq: "?K ! q < ?n \<and> \<not> flags ! (?K ! q)" using mem[of "?K ! q"] lq nth_mem by blast
  have ne: "?K ! t \<noteq> ?K ! q" using dK lt lq tq(3) by (simp add: nth_eq_iff_index_eq)
  have "box_iou fns (boxes ! (?K ! t)) (boxes ! (?K ! q)) \<le> thr"
    using templated_hard_kept_apart[OF perm sym _ _ ne, of scores0 thr sthr p] kt kq fl by simp
  then show ?thesis unfolding im using lt lq by simp
qed

lemma aabox_iou_sym: "aabox_iou a b = aabox_iou b a"
  by (cases a; cases b) (simp add: aabox_iou_def Let_def min.commute max.commute add.commute)

lemma kept_three:
  "index_mask (survivors three_boxes [3/5, 1/2, 9/10] (1/10)) (map Not [True, False, False])
     = [(20, 20, 30, 30), (0, 0, 10, 8)]"
  "index_mask (survivors [3/5, 1/2, 9/10 :: real] [3/5, 1/2, 9/10] (1/10)) (map Not [True, False, False])
     = [1/2, 9/10]"
  unfolding survivors_all_three by (simp_all add: index_mask_def three_boxes_def)

subsection \<open>Tensors in device memory\<close>

lemma launch_iou_kernel_frame:
  assumes "launch_iou_kernel fns S h boxes_a order_a thr p coeffs_a mask_a nb = Some h'"
  shows "length h' = length h"
    and "a \<noteq> coeffs_a \<Longrightarrow> a \<noteq> mask_a \<Longrightarrow> h' ! a = h ! a"
  using assms
  by (auto simp add: launch_iou_kernel_def Let_def split: Option.bind_splits)

lemma launch_collect_kernel_frame:
  assumes "launch_collect_kernel S h order_a mask_a coeffs_a remv_a scores_a sthr sup_a = Some h'"
  shows "length h' = length h"
    and "a \<noteq> remv_a \<Longrightarrow> a \<noteq> scores_a \<Longrightarrow> a \<noteq> sup_a \<Longrightarrow> h' ! a = h ! a"
  using assms
  by (auto simp add: launch_collect_kernel_def Let_def split: Option.bind_splits)

lemma templated_mem_frame:
  assumes "nms2d_cuda_templated_mem fns S h boxes_a order_a scores_a thr sthr p sup_a = Some h'"
  shows "length h \<le> length h'"
    and "a < length h \<Longrightarrow> a \<noteq> scores_a \<Longrightarrow> a \<noteq> sup_a \<Longrightarrow> h' ! a = h ! a"
proof -
  from assms obtain boxes h3 where
    b: "boxes_at h boxes_a = Some boxes"
    and i: "launch_iou_kernel fns S
              (h @ [Bits2 (replicate (length boxes) (replicate (divup (length boxes) FLAG_WIDTH) 0)),
                    Reals2 (if S = HARD then [] else replicate (length boxes) (replicate (length boxes) 0))])
              boxes_a order_a thr p (Suc (length h)) (length h) (divup (length boxes) FLAG_WIDTH)
            = Some h3"
    and c: "launch_collect_kernel S (h3 @ [Bits (replicate (divup (length boxes) FLAG_WIDTH) 0)])
              order_a (length h) (Suc (length h)) (length h3) scores_a sthr sup_a = Some h'"
    by (auto simp add: nms2d_cuda_templated_mem_def alloc_def Let_def split: Option.bind_splits)
  have l3: "length h3 = length h + 2"
    using launch_iou_kernel_frame(1)[OF i] by simp
  have l': "length h' = length h + 3"
    using launch_collect_kernel_frame(1)[OF c] l3 by simp
  show "length h \<le> length h'" using l' by simp
  assume a: "a < length h" "a \<noteq> scores_a" "a \<noteq> sup_a"
  have "h' ! a = (h3 @ [Bits (replicate (divup (length boxes) FLAG_WIDTH) 0)]) ! a"
    using launch_collect_kernel_frame(2)[OF c, of a] a l3 by simp
  also have "\<dots> = h3 ! a" using a l3 by (simp add: nth_append)
  also have "\<dots> = h ! a"
    using launch_iou_kernel_frame(2)[OF i, of a] a by (simp add: nth_append)
  finally show "h' ! a = h ! a" .
qed

lemma nms2d_cuda_mem_frame:
  "take (length h) (fst (nms2d_cuda_mem argsort fns h boxes_a scores_a S thr sthr p)) = h"
proof (cases "boxes_at h boxes_a")
  case None
  then show ?thesis by (simp add: nms2d_cuda_mem_def)
next
  case (Some boxes)
  note b = this
  show ?thesis
  proof (cases "reals_at h scores_a")
    case None
    then show ?thesis using b by (simp add: nms2d_cuda_mem_def)
  next
    case (Some scores0)
    note s = this
    let ?sm = "map (\<lambda>s. s > sthr) scores0"
    show ?thesis
    proof (cases "length boxes = length ?sm")
      case False
      then show ?thesis using b s by (simp add: nms2d_cuda_mem_def alloc_def)
    next
      case True
      let ?h5 = "h @ [Bools ?sm, Boxes (index_mask boxes ?sm), Reals (index_mask scores0 ?sm),
                      Longs (argsort (index_mask scores0 ?sm)),
                      Bools (replicate (length (index_mask boxes ?sm)) False)]"
      let ?T = "nms2d_cuda_templated_mem fns S ?h5 (Suc (length h)) (Suc (Suc (Suc (length h))))
                  (Suc (Suc (length h))) thr sthr p (Suc (Suc (Suc (Suc (length h)))))"
      have R: "nms2d_cuda_mem argsort fns h boxes_a scores_a S thr sthr p =
          (case ?T of None \<Rightarrow> (?h5, Inl TypeError)
                    | Some h6 \<Rightarrow> (h6, Inr (Suc (Suc (Suc (Suc (length h)))))))"
        using b s True by (simp add: nms2d_cuda_mem_def alloc_def Let_def split: option.splits)
      show ?thesis
      proof (cases ?T)
        case None
        then show ?thesis unfolding R by simp
      next
        case (Some h6)
        have "length ?h5 \<le> length h6" using templated_mem_frame(1)[OF Some] .
        then have len: "length h \<le> length h6" by simp
        have "h6 ! a = h ! a" if "a < length h" for a
          using templated_mem_frame(2)[OF Some, of a] that by (simp add: nth_append)
        then have "take (length h) h6 = h"
          using len by (intro nth_equalityI) simp_all
        then show ?thesis unfolding R Some by simp
      qed
    qed
  qed
qed

lemmas at_defs = boxes_at_def reals_at_def reals2_at_def longs_at_def bits_at_def bits2_at_def
  bools_at_def

lemma templated_mem_result:
  assumes "boxes_at h boxes_a = Some boxes" "longs_at h order_a = Some order"
    and "reals_at h scores_a = Some sc" "bools_at h sup_a = Some sp"
  shows "\<exists>h'. nms2d_cuda_templated_mem fns S h boxes_a order_a scores_a thr sthr p sup_a = Some h' \<and>
           reals_at h' scores_a =
             Some (scores (nms2d_cuda_templated fns S boxes order sc thr sthr p sp)) \<and>
           bools_at h' sup_a =
             Some (suppressed (nms2d_cuda_templated fns S boxes order sc thr sthr p sp))"
proof -
  let ?n = "length boxes"
  let ?nb = "divup ?n FLAG_WIDTH"
  let ?c0 = "if S = HARD then [] else replicate ?n (replicate ?n (0::real))"
  let ?h2 = "h @ [Bits2 (replicate ?n (replicate ?nb 0)), Reals2 ?c0]"
  let ?m = "pairwise_phase fns S boxes order thr p"
  have a: "boxes_a < length h" "h ! boxes_a = Boxes boxes"
    "order_a < length h" "h ! order_a = Longs order"
    "scores_a < length h" "h ! scores_a = Reals sc"
    "sup_a < length h" "h ! sup_a = Bools sp"
    using assms by (auto simp add: at_defs split: if_splits storage.splits)
  have ne: "scores_a \<noteq> sup_a" using a by auto
  let ?h3 = "?h2[Suc (length h) := Reals2 (iou_coeffs ?m), length h := Bits2 (mask_w ?m)]"
  have i: "launch_iou_kernel fns S ?h2 boxes_a order_a thr p (Suc (length h)) (length h) ?nb
             = Some ?h3"
    using a by (simp add: launch_iou_kernel_def at_defs nth_append pairwise_phase_def Let_def)
  let ?h4 = "?h3 @ [Bits (replicate ?nb 0)]"
  let ?T = "nms2d_cuda_templated fns S boxes order sc thr sthr p sp"
  let ?h' = "?h4[length h + 2 := Bits (remv ?T), scores_a := Reals (scores ?T),
                 sup_a := Bools (suppressed ?T)]"
  have c: "launch_collect_kernel S ?h4 order_a (length h) (Suc (length h)) (length h + 2)
             scores_a sthr sup_a = Some ?h'"
    using a
    by (simp add: launch_collect_kernel_def at_defs nth_append nth_list_update
        nms2d_cuda_templated_def Let_def)
  have "nms2d_cuda_templated_mem fns S h boxes_a order_a scores_a thr sthr p sup_a = Some ?h'"
    using assms(1) i c by (simp add: nms2d_cuda_templated_mem_def alloc_def Let_def)
  moreover have "reals_at ?h' scores_a = Some (scores ?T)"
    using a ne by (simp add: reals_at_def nth_list_update)
  moreover have "bools_at ?h' sup_a = Some (suppressed ?T)"
    using a ne by (simp add: bools_at_def nth_list_update)
  ultimately show ?thesis by blast
qed

lemma nms2d_cuda_mem_result:
  fixes argsort fns h boxes_a scores_a S thr sthr p boxes scores0
  defines "R \<equiv> nms2d_cuda_mem argsort fns h boxes_a scores_a S thr sthr p"
    and "T \<equiv> nms2d_cuda_templated fns S (survivors boxes scores0 sthr)
                 (argsort (survivors scores0 scores0 sthr)) (survivors scores0 scores0 sthr)
                 thr sthr p (replicate (length (survivors boxes scores0 sthr)) False)"
  assumes b: "boxes_at h boxes_a = Some boxes" and s: "reals_at h scores_a = Some scores0"
  shows "length boxes \<noteq> length scores0 \<Longrightarrow> snd R = Inl IndexError"
    and "length boxes = length scores0 \<Longrightarrow>
           snd R = Inr (Suc (Suc (Suc (Suc (length h))))) \<and>
           bools_at (fst R) (Suc (Suc (Suc (Suc (length h))))) = Some (suppressed T) \<and>
           reals_at (fst R) (Suc (Suc (length h))) = Some (scores T)"
proof -
  show "length boxes \<noteq> length scores0 \<Longrightarrow> snd R = Inl IndexError"
    using b s by (simp add: R_def nms2d_cuda_mem_def alloc_def)
next
  assume len: "length boxes = length scores0"
  let ?bm = "survivors boxes scores0 sthr"
  let ?sm = "survivors scores0 scores0 sthr"
  let ?h5 = "h @ [Bools (map (\<lambda>s. s > sthr) scores0), Boxes ?bm, Reals ?sm,
                  Longs (argsort ?sm), Bools (replicate (length ?bm) False)]"
  let ?M = "nms2d_cuda_templated_mem fns S ?h5 (Suc (length h)) (Suc (Suc (Suc (length h)))) (Suc (Suc (length h)))
              thr sthr p (Suc (Suc (Suc (Suc (length h)))))"
  have rd: "boxes_at ?h5 (Suc (length h)) = Some ?bm" "longs_at ?h5 (Suc (Suc (Suc (length h)))) = Some (argsort ?sm)"
    "reals_at ?h5 (Suc (Suc (length h))) = Some ?sm"
    "bools_at ?h5 (Suc (Suc (Suc (Suc (length h))))) = Some (replicate (length ?bm) False)"
    by (simp_all add: at_defs nth_append)
  obtain h6 where h6: "?M = Some h6"
    "reals_at h6 (Suc (Suc (length h))) = Some (scores T)"
    "bools_at h6 (Suc (Suc (Suc (Suc (length h))))) = Some (suppressed T)"
    using templated_mem_result[OF rd, of fns S thr sthr p] unfolding T_def by blast
  have "R = (h6, Inr (Suc (Suc (Suc (Suc (length h))))))"
    using b s len h6(1)
    by (simp add: R_def nms2d_cuda_mem_def alloc_def Let_def survivors_def split: option.splits)
  then show "snd R = Inr (Suc (Suc (Suc (Suc (length h))))) \<and>
           bools_at (fst R) (Suc (Suc (Suc (Suc (length h))))) = Some (suppressed T) \<and>
           reals_at (fst R) (Suc (Suc (length h))) = Some (scores T)"
    using h6 by simp
qed

lemma templated_two_linear:
  "nms2d_cuda_templated (real_fns aabox_iou) LINEAR two_boxes [1, 0] [3/5, 9/10]
      (1/2) (3/20) 1 [False, False]
     = \<lparr>remv = [2], scores = [3/5, 0], suppressed = [True, False]\<rparr>"
  by (simp add: kernel_defs two_boxes_def)

lemma survivors_two:
  "survivors two_boxes [3/5, 9/10] (3/20) = two_boxes"
  "survivors [3/5, 9/10 :: real] [3/5, 9/10] (3/20) = [3/5, 9/10]"
  by (simp_all add: survivors_def index_mask_def two_boxes_def)

subsection \<open>The cells of the coefficient tensor a unit writes\<close>

lemma fold_body_snd_linear:
  assumes "x < length (snd s)" "y < length (snd s ! x)"
  shows "snd (fold (iou_loop_body fns LINEAR bcur bb thr p idx) [a..<b] s) ! x ! y =
           (if x = idx \<and> a \<le> y \<and> y < b
            then snd s ! x ! y * (1 - pow_fn fns (box_iou fns bcur (bb ! y)) p)
            else snd s ! x ! y) \<and>
         length (snd (fold (iou_loop_body fns LINEAR bcur bb thr p idx) [a..<b] s)) = length (snd s) \<and>
         length (snd (fold (iou_loop_body fns LINEAR bcur bb thr p idx) [a..<b] s) ! x)
           = length (snd s ! x)"
proof (induction b)
  case 0
  then show ?case by simp
next
  case (Suc b)
  show ?case
  proof (cases "a \<le> b")
    case True
    then show ?thesis
      using Suc assms by (auto simp add: iou_loop_body_def Let_def upd2_nth)
  next
    case False
    then show ?thesis by auto
  qed
qed

lemma iou_thread_coeff_linear:
  assumes "x < length (iou_coeffs m)" "y < length (iou_coeffs m ! x)"
    and "r \<le> c" "r * 64 + t < length boxes" "t < 64"
  shows "iou_coeffs (iou_thread fns LINEAR boxes order thr p (r, c, t) m) ! x ! y =
           (if x = r * 64 + t \<and> (if r = c then t + 1 else 0) \<le> y \<and>
               y < min (length boxes - c * 64) 64
            then iou_coeffs m ! x ! y * (1 - pow_fn fns (sorted_iou fns boxes order x (c * 64 + y)) p)
            else iou_coeffs m ! x ! y)"
proof -
  let ?cs = "min (length boxes - c * 64) 64"
  let ?bb = "map (\<lambda>t. boxes ! (order ! (c * 64 + t))) [0..<?cs]"
  let ?st = "if r = c then t + 1 else 0"
  let ?f = "fold (iou_loop_body fns LINEAR (boxes ! (order ! (r * 64 + t))) ?bb thr p (r * 64 + t))
              [?st..<?cs] (0, iou_coeffs m)"
  have th: "iou_coeffs (iou_thread fns LINEAR boxes order thr p (r, c, t) m) = snd ?f"
    using assms(3,4,5) by (auto simp add: iou_thread_def FLAG_WIDTH_64 Let_def)
  have "snd ?f ! x ! y =
          (if x = r * 64 + t \<and> ?st \<le> y \<and> y < ?cs
           then iou_coeffs m ! x ! y *
                (1 - pow_fn fns (box_iou fns (boxes ! (order ! (r * 64 + t))) (?bb ! y)) p)
           else iou_coeffs m ! x ! y)"
    using fold_body_snd_linear[of x "(0, iou_coeffs m)" y fns "boxes ! (order ! (r * 64 + t))"
        ?bb thr p "r * 64 + t" ?st ?cs] assms(1,2)
    by simp
  moreover have "?bb ! y = boxes ! (order ! (c * 64 + y))" if "y < ?cs"
    using that by simp
  ultimately show ?thesis
    unfolding th by (simp add: sorted_iou_def)
qed

subsection \<open>The working scores\<close>

lemma number_in_mult:
  assumes "number_in 0 x v" "number_in 0 1 c"
  shows "number_in 0 x (v * c)"
proof -
  obtain r where r: "v = Fin r" "0 \<le> r" "r \<le> x"
    using assms(1) by (auto simp add: number_in_def split: fscalar.splits)
  obtain q where q: "c = Fin q" "0 \<le> q" "q \<le> 1"
    using assms(2) by (auto simp add: number_in_def split: fscalar.splits)
  have "r * q \<le> r * 1" using q(3) r(2) by (rule mult_left_mono)
  then have "r * q \<le> x" using r(3) by simp
  moreover have "0 \<le> r * q" using r(2) q(2) by simp
  ultimately show ?thesis by (simp add: r q times_fscalar_def number_in_def)
qed

lemma soft_bit_step_score:
  assumes "bit (msk ! i ! j) k \<longrightarrow> number_in 0 1 (coeffs ! i ! (j * FLAG_WIDTH + k))"
    and "number_in 0 x (scores st ! s)"
  shows "number_in 0 x (scores (soft_bit_step msk coeffs thr i j k st) ! s)"
proof (cases "bit (msk ! i ! j) k \<and> \<not> bit (remv st ! j) k \<and>
              s = j * FLAG_WIDTH + k \<and> s < length (scores st)")
  case True
  have v: "scores (soft_bit_step msk coeffs thr i j k st) ! s =
             scores st ! s * coeffs ! i ! (j * FLAG_WIDTH + k)"
    using True by (simp add: soft_bit_step_def Let_def test_bit_iff del: push_bit_of_1)
  show ?thesis
    unfolding v using assms True by (intro number_in_mult) simp_all
next
  case False
  then have "scores (soft_bit_step msk coeffs thr i j k st) ! s = scores st ! s"
    by (auto simp add: soft_bit_step_def Let_def test_bit_iff list_update_beyond not_less
        simp del: push_bit_of_1)
  then show ?thesis using assms(2) by simp
qed

lemma fold_soft_score:
  assumes "\<forall>k \<in> set ks. bit (msk ! i ! j) k \<longrightarrow>
             number_in 0 1 (coeffs ! i ! (j * FLAG_WIDTH + k))"
    and "number_in 0 x (scores st ! s)"
  shows "number_in 0 x (scores (fold (soft_bit_step msk coeffs thr i j) ks st) ! s)"
  using assms
proof (induction ks arbitrary: st)
  case Nil
  then show ?case by simp
next
  case (Cons k ks)
  have "number_in 0 x (scores (soft_bit_step msk coeffs thr i j k st) ! s)"
    using Cons.prems by (intro soft_bit_step_score) simp_all
  then show ?case using Cons.IH[of "soft_bit_step msk coeffs thr i j k st"] Cons.prems(1) by simp
qed

lemma block_step_score:
  assumes "\<forall>k. bit (msk ! i ! j) k \<longrightarrow> number_in 0 1 (coeffs ! i ! (j * FLAG_WIDTH + k))"
    and "number_in 0 x (scores st ! s)"
  shows "number_in 0 x (scores (block_step S msk coeffs thr i j st) ! s)"
proof (cases "S = HARD")
  case True
  then show ?thesis using assms(2) by (simp add: block_step_def)
next
  case False
  then show ?thesis
    using fold_soft_score[of "[0..<FLAG_WIDTH]" msk i j coeffs x st s thr] assms
    by (simp add: block_step_def)
qed

lemma fold_block_score:
  assumes "\<forall>j \<in> set js. \<forall>k. bit (msk ! i ! j) k \<longrightarrow>
             number_in 0 1 (coeffs ! i ! (j * FLAG_WIDTH + k))"
    and "number_in 0 x (scores st ! s)"
  shows "number_in 0 x (scores (fold (block_step S msk coeffs thr i) js st) ! s)"
  using assms
proof (induction js arbitrary: st)
  case Nil
  then show ?case by simp
next
  case (Cons j js)
  have "number_in 0 x (scores (block_step S msk coeffs thr i j st) ! s)"
    using Cons.prems by (intro block_step_score) simp_all
  then show ?case using Cons.IH[of "block_step S msk coeffs thr i j st"] Cons.prems(1) by simp
qed

lemma collect_step_score:
  assumes "\<forall>j < size1 msk. \<forall>k. bit (msk ! i ! j) k \<longrightarrow>
             number_in 0 1 (coeffs ! i ! (j * FLAG_WIDTH + k))"
    and "number_in 0 x (scores st ! s)"
  shows "number_in 0 x (scores (collect_step S order msk coeffs thr i st) ! s)"
  using fold_block_score[of "[i div FLAG_WIDTH..<size1 msk]" msk i coeffs x st s S thr] assms
  by (simp add: collect_step_def Let_def)

lemma collect_upto_score:
  assumes "\<forall>i < n. \<forall>j < size1 msk. \<forall>k. bit (msk ! i ! j) k \<longrightarrow>
             number_in 0 1 (coeffs ! i ! (j * FLAG_WIDTH + k))"
    and "number_in 0 x (scores st ! s)"
  shows "number_in 0 x (scores (collect_upto S order msk coeffs thr n st) ! s)"
  using assms(1)
proof (induction n)
  case 0
  then show ?case using assms(2) by simp
next
  case (Suc n)
  then have IH: "number_in 0 x (scores (collect_upto S order msk coeffs thr n st) ! s)"
    by simp
  show ?case
    unfolding collect_upto_Suc
    using Suc.prems IH by (intro collect_step_score) simp_all
qed

lemma number_in_le: "number_in 0 r v \<Longrightarrow> v \<le> Fin r"
  by (auto simp add: number_in_def less_eq_fscalar_def split: fscalar.splits)

lemma demo_mask_bits:
  assumes "i < size0 demo_mask" "j < size1 demo_mask" "bit (demo_mask ! i ! j) k"
  shows "i = 0 \<and> j = 0 \<and> k = 1"
proof -
  have j: "j = 0" using assms(2) by (simp add: size1_def demo_mask_def)
  have i: "i = 0 \<or> i = 1" using assms(1) by (auto simp add: size0_def demo_mask_def)
  have "\<not> bit (0 :: bitvec_t) k" by simp
  then have i0: "i = 0" using i j assms(3) by (auto simp add: demo_mask_def)
  have "bit (2 :: bitvec_t) k" using assms(3) i0 j by (simp add: demo_mask_def)
  then have "k = 1" using bit_set_bit_iff[of 0 1 k] by simp
  then show ?thesis using i0 j by simp
qed

section \<open>The claims\<close>

subsection \<open>C1\<close>

text \<open>
  C1 does not hold of the code. The coefficient tensor is allocated with
  \<^verbatim>\<open>torch::zeros\<close> and the kernel multiplies into it, so every cell is \<open>0\<close> before
  and after the pairwise phase, where the claim has \<open>1\<close> and the decay factor (here
  \<open>1 - 4/5\<close>). The write is addressed by the column \<open>i\<close> within the tile, not by
  the sorted position: with 66 boxes and a tensor of ones, the unit of row tile 0,
  column tile 1 and thread 0, which compares the sorted position 0 with the positions
  64 and 65, changes the cells \<open>(0, 0)\<close> and \<open>(0, 1)\<close> and leaves the cells
  \<open>(0, 64)\<close> and \<open>(0, 65)\<close> as they were; the cell \<open>(0, 1)\<close> is also written by the
  unit of row tile 0, column tile 0 and thread 0.
\<close>

theorem soft_coefficients_stay_zero:
  "iou_coeffs (pairwise_phase (real_fns aabox_iou) LINEAR two_boxes [0, 1] (1/2) 1)
     = [[0, 0], [0, 0]] \<and>
   sorted_iou (real_fns aabox_iou) two_boxes [0, 1] 0 1 = 4/5 \<and>
   1 - pow_fn (real_fns aabox_iou) (sorted_iou (real_fns aabox_iou) two_boxes [0, 1] 0 1) 1 = 1/5 \<and>
   iou_coeffs (iou_thread (real_fns aabox_iou) LINEAR many_boxes [0..<66] (1/2) 1 (0, 1, 0) ones_mem)
     ! 0 ! 0 = 0 \<and>
   iou_coeffs (iou_thread (real_fns aabox_iou) LINEAR many_boxes [0..<66] (1/2) 1 (0, 1, 0) ones_mem)
     ! 0 ! 1 = 0 \<and>
   iou_coeffs (iou_thread (real_fns aabox_iou) LINEAR many_boxes [0..<66] (1/2) 1 (0, 1, 0) ones_mem)
     ! 0 ! 64 = 1 \<and>
   iou_coeffs (iou_thread (real_fns aabox_iou) LINEAR many_boxes [0..<66] (1/2) 1 (0, 1, 0) ones_mem)
     ! 0 ! 65 = 1 \<and>
   iou_coeffs (iou_thread (real_fns aabox_iou) LINEAR many_boxes [0..<66] (1/2) 1 (0, 0, 0) ones_mem)
     ! 0 ! 1 = 0"
proof -
  have 1: "iou_coeffs (pairwise_phase (real_fns aabox_iou) LINEAR two_boxes [0, 1] (1/2) 1)
     = [[0, 0], [0, 0]]"
    by (simp add: pairwise_phase_coeffs two_boxes_def numeral_2_eq_2)
  have 2: "sorted_iou (real_fns aabox_iou) two_boxes [0, 1] 0 1 = 4/5"
    by (simp add: sorted_iou_def real_fns_def aabox_iou_def two_boxes_def)
  have 3: "1 - pow_fn (real_fns aabox_iou) (sorted_iou (real_fns aabox_iou) two_boxes [0, 1] 0 1) 1 = 1/5"
    unfolding 2 by (simp add: real_fns_def pow_real_def)
  have one: "pow_fn (real_fns aabox_iou) (sorted_iou (real_fns aabox_iou) many_boxes [0..<66] 0 j) 1 = 1"
    if "j < 66" for j
    using that by (simp add: sorted_iou_def real_fns_def aabox_iou_def many_boxes_def pow_real_def)
  have c: "x < 66 \<Longrightarrow> y < 66 \<Longrightarrow> x < length (iou_coeffs ones_mem) \<and>
      y < length (iou_coeffs ones_mem ! x) \<and> iou_coeffs ones_mem ! x ! y = 1" for x y
    by (simp add: ones_mem_def)
  have l: "length many_boxes = 66" by (simp add: many_boxes_def)
  have 4: "iou_coeffs (iou_thread (real_fns aabox_iou) LINEAR many_boxes [0..<66] (1/2) 1 (0, 1, 0) ones_mem)
     ! 0 ! 0 = 0"
    using c[of 0 0] one[of 64] by (simp add: iou_thread_coeff_linear l)
  have 5: "iou_coeffs (iou_thread (real_fns aabox_iou) LINEAR many_boxes [0..<66] (1/2) 1 (0, 1, 0) ones_mem)
     ! 0 ! 1 = 0"
    using c[of 0 1] one[of 65] by (simp add: iou_thread_coeff_linear l)
  have 6: "iou_coeffs (iou_thread (real_fns aabox_iou) LINEAR many_boxes [0..<66] (1/2) 1 (0, 1, 0) ones_mem)
     ! 0 ! 64 = 1"
    using c[of 0 64] by (simp add: iou_thread_coeff_linear l)
  have 7: "iou_coeffs (iou_thread (real_fns aabox_iou) LINEAR many_boxes [0..<66] (1/2) 1 (0, 1, 0) ones_mem)
     ! 0 ! 65 = 1"
    using c[of 0 65] by (simp add: iou_thread_coeff_linear l)
  have 8: "iou_coeffs (iou_thread (real_fns aabox_iou) LINEAR many_boxes [0..<66] (1/2) 1 (0, 0, 0) ones_mem)
     ! 0 ! 1 = 0"
    using c[of 0 1] one[of 1] by (simp add: iou_thread_coeff_linear l)
  show ?thesis using 1 2 3 4 5 6 7 8 by blast
qed

subsection \<open>C2\<close>

text \<open>
  C2 does not hold of the code. The kernel multiplies \<^verbatim>\<open>scores_[i2]\<close>, where \<open>i2\<close> is a
  sorted position and \<^verbatim>\<open>scores_\<close> is indexed like the boxes. With the scores \<open>3/5\<close> and
  \<open>9/10\<close> the sorted position 1 is the shape of index 0; with the coefficient \<open>1/5\<close>
  of the claim and the score threshold \<open>3/20\<close>, its score would fall to \<open>3/25\<close> and
  its bit would be set. The kernel decays the score of index 1, the best shape, to
  \<open>9/50\<close>, and sets no bit. In the whole run, where the coefficient is \<open>0\<close>, the
  score of index 1 falls to \<open>0\<close> and the shape of index 0 is flagged with its score
  unchanged.
\<close>

theorem soft_decay_hits_wrong_score:
  "nms_collect_kernel LINEAR [1, 0] demo_mask [[1, 1/5], [1, 1 :: real]] (3/20)
     \<lparr>remv = [0], scores = [3/5, 9/10], suppressed = [False, False]\<rparr>
     = \<lparr>remv = [0], scores = [3/5, 9/50], suppressed = [False, False]\<rparr> \<and>
   nms2d_cuda_templated (real_fns aabox_iou) LINEAR two_boxes [1, 0] [3/5, 9/10]
      (1/2) (3/20) 1 [False, False]
     = \<lparr>remv = [2], scores = [3/5, 0], suppressed = [True, False]\<rparr>"
proof -
  have 1: "nms_collect_kernel LINEAR [1, 0] demo_mask [[1, 1/5], [1, 1 :: real]] (3/20)
     \<lparr>remv = [0], scores = [3/5, 9/10], suppressed = [False, False]\<rparr>
     = \<lparr>remv = [0], scores = [3/5, 9/50], suppressed = [False, False]\<rparr>"
    by (simp add: kernel_defs demo_mask_def)
  have 2: "nms2d_cuda_templated (real_fns aabox_iou) LINEAR two_boxes [1, 0] [3/5, 9/10]
      (1/2) (3/20) 1 [False, False]
     = \<lparr>remv = [2], scores = [3/5, 0], suppressed = [True, False]\<rparr>"
    by (simp add: kernel_defs two_boxes_def)
  show ?thesis using 1 2 by blast
qed

subsection \<open>C3\<close>

text \<open>
  The statement of C3 fails as it stands. It says that entry \<open>i\<close> of the returned flags
  is true exactly when the shape at the sorted position \<open>i\<close> was suppressed; the kernel
  writes \<^verbatim>\<open>suppressed_[order_[i]]\<close>. With two overlapping shapes whose scores are given
  in ascending order, the flag returned at index 0 is set although the accumulator bit
  of the sorted position 0 is clear.
\<close>

theorem flags_by_sorted_position_counterexample:
  "argsort_desc [3/5, 9/10] = [1, 0] \<and>
   nms2d_cuda argsort_desc (real_fns aabox_iou) two_boxes [3/5, 9/10] HARD (1/2) (1/10) 1
     = Inr [True, False] \<and>
   \<not> remv_bit (nms2d_cuda_templated (real_fns aabox_iou) HARD two_boxes [1, 0] [3/5, 9/10]
               (1/2) (1/10) 1 [False, False]) 0 \<and>
   remv_bit (nms2d_cuda_templated (real_fns aabox_iou) HARD two_boxes [1, 0] [3/5, 9/10]
               (1/2) (1/10) 1 [False, False]) 1"
proof -
  have sv: "survivors two_boxes [3/5, 9/10] (1/10) = two_boxes"
    "survivors [3/5, 9/10 :: real] [3/5, 9/10] (1/10) = [3/5, 9/10]"
    by (simp_all add: survivors_def index_mask_def two_boxes_def)
  have len: "length two_boxes = length [3/5, 9/10 :: real]"
    by (simp add: two_boxes_def)
  have "nms2d_cuda argsort_desc (real_fns aabox_iou) two_boxes [3/5, 9/10] HARD (1/2) (1/10) 1
     = Inr [True, False]"
    by (simp only: nms2d_cuda_eq[OF len] sv argsort_desc_two replicate_two
        templated_two_hard collect_mem.select_convs)
  moreover have "\<not> remv_bit (nms2d_cuda_templated (real_fns aabox_iou) HARD two_boxes [1, 0]
      [3/5, 9/10] (1/2) (1/10) 1 [False, False]) 0"
    "remv_bit (nms2d_cuda_templated (real_fns aabox_iou) HARD two_boxes [1, 0]
      [3/5, 9/10] (1/2) (1/10) 1 [False, False]) 1"
    unfolding templated_two_hard by (simp_all add: remv_bit_def FLAG_WIDTH_64)
  ultimately show ?thesis
    using argsort_desc_two by blast
qed

text \<open>
  C3, amended. The returned flags are keyed by the index in the score-filtered tensors:
  for every input and mode and every sorted position \<open>i\<close>, the flag at index
  \<open>order ! i\<close> is true exactly when the accumulator bit of \<open>i\<close> is set at the end,
  that is, when the shape at the sorted position \<open>i\<close> was suppressed.
\<close>

theorem flags_keyed_by_filtered_index:
  assumes "length boxes = length scores0"
    and "is_argsort_desc (survivors scores0 scores0 sthr) (argsort (survivors scores0 scores0 sthr))"
    and "i < length (survivors scores0 scores0 sthr)"
  shows "case nms2d_cuda argsort fns boxes scores0 S thr sthr p of
           Inl e \<Rightarrow> False
         | Inr flags \<Rightarrow>
             flags ! (argsort (survivors scores0 scores0 sthr) ! i) =
             remv_bit (nms2d_cuda_templated fns S (survivors boxes scores0 sthr)
                         (argsort (survivors scores0 scores0 sthr)) (survivors scores0 scores0 sthr)
                         thr sthr p (replicate (length (survivors boxes scores0 sthr)) False)) i"
proof -
  have len: "length (survivors boxes scores0 sthr) = length (survivors scores0 scores0 sthr)"
    using assms(1) by (simp add: length_survivors)
  have perm: "mset (argsort (survivors scores0 scores0 sthr)) = mset [0..<length (survivors boxes scores0 sthr)]"
    using assms(2) len by (simp add: is_argsort_desc_def)
  show ?thesis
    unfolding nms2d_cuda_eq[OF assms(1)] sum.case
    using templated_suppressed_iff[OF perm, of i] assms(3) len by simp
qed

theorem flags_keyed_by_filtered_index_witness:
  "length three_boxes = length [3/5, 1/20, 9/10 :: real] \<and>
   is_argsort_desc (survivors [3/5, 1/20, 9/10] [3/5, 1/20, 9/10] (1/10))
     (argsort_desc (survivors [3/5, 1/20, 9/10] [3/5, 1/20, 9/10] (1/10))) \<and>
   (1::nat) < length (survivors [3/5, 1/20, 9/10 :: real] [3/5, 1/20, 9/10] (1/10)) \<and>
   nms2d_cuda argsort_desc (real_fns aabox_iou) three_boxes [3/5, 1/20, 9/10] HARD (1/2) (1/10) 1
     = Inr [True, False] \<and>
   argsort_desc (survivors [3/5, 1/20, 9/10] [3/5, 1/20, 9/10] (1/10)) ! 1 = 0 \<and>
   remv_bit (nms2d_cuda_templated (real_fns aabox_iou) HARD (survivors three_boxes [3/5, 1/20, 9/10] (1/10))
               (argsort_desc (survivors [3/5, 1/20, 9/10] [3/5, 1/20, 9/10] (1/10)))
               (survivors [3/5, 1/20, 9/10] [3/5, 1/20, 9/10] (1/10))
               (1/2) (1/10) 1
               (replicate (length (survivors three_boxes [3/5, 1/20, 9/10] (1/10))) False)) 1"
proof -
  have h1: "length three_boxes = length [3/5, 1/20, 9/10 :: real]"
    by (simp add: three_boxes_def)
  have h2: "is_argsort_desc (survivors [3/5, 1/20, 9/10] [3/5, 1/20, 9/10] (1/10))
     (argsort_desc (survivors [3/5, 1/20, 9/10] [3/5, 1/20, 9/10] (1/10)))"
    by (rule argsort_desc_ok)
  have h3: "(1::nat) < length (survivors [3/5, 1/20, 9/10 :: real] [3/5, 1/20, 9/10] (1/10))"
    by (simp add: survivors_three)
  have e: "nms2d_cuda argsort_desc (real_fns aabox_iou) three_boxes [3/5, 1/20, 9/10] HARD (1/2) (1/10) 1
     = Inr [True, False]"
    by (simp only: nms2d_cuda_eq[OF h1] survivors_three argsort_desc_two replicate_two
        templated_two_hard collect_mem.select_convs)
  show ?thesis
    using h1 h2 h3 e
      flags_keyed_by_filtered_index[where boxes = three_boxes and ?scores0.0 = "[3/5, 1/20, 9/10]"
        and sthr = "1/10" and argsort = argsort_desc and fns = "real_fns aabox_iou"
        and S = HARD and thr = "1/2" and p = 1 and i = 1]
    by (simp add: survivors_three argsort_desc_two)
qed

subsection \<open>C4\<close>

text \<open>
  C4. For every input, the shapes that enter the two kernels are exactly those whose
  score is strictly greater than the score threshold, in their order; they are
  visited in an order of descending score; and the returned flags are as many as
  these shapes, not as many as the shapes given.
\<close>

theorem prefilter_and_order:
  assumes "length boxes = length scores0"
    and "is_argsort_desc (survivors scores0 scores0 sthr) (argsort (survivors scores0 scores0 sthr))"
  shows "survivors scores0 scores0 sthr = filter (\<lambda>s. s > sthr) scores0 \<and>
         survivors boxes scores0 sthr = map fst (filter (\<lambda>(b, s). s > sthr) (zip boxes scores0)) \<and>
         nms2d_cuda argsort fns boxes scores0 S thr sthr p =
           Inr (suppressed (nms2d_cuda_templated fns S (survivors boxes scores0 sthr)
                  (argsort (survivors scores0 scores0 sthr)) (survivors scores0 scores0 sthr)
                  thr sthr p (replicate (length (survivors boxes scores0 sthr)) False))) \<and>
         (\<forall>i. i + 1 < length (survivors scores0 scores0 sthr) \<longrightarrow>
            survivors scores0 scores0 sthr ! (argsort (survivors scores0 scores0 sthr) ! i)
              \<ge> survivors scores0 scores0 sthr ! (argsort (survivors scores0 scores0 sthr) ! (i + 1))) \<and>
         (case nms2d_cuda argsort fns boxes scores0 S thr sthr p of
            Inl e \<Rightarrow> False
          | Inr flags \<Rightarrow> length flags = length (filter (\<lambda>s. s > sthr) scores0))"
proof -
  let ?sm = "survivors scores0 scores0 sthr"
  let ?ord = "argsort ?sm"
  have len: "length ?ord = length ?sm"
    using assms(2) perm_order(1) by (auto simp add: is_argsort_desc_def)
  have srt: "sorted_wrt (\<lambda>a b. ?sm ! a \<ge> ?sm ! b) ?ord"
    using assms(2) by (simp add: is_argsort_desc_def)
  have "?sm ! (?ord ! i) \<ge> ?sm ! (?ord ! (i + 1))" if "i + 1 < length ?sm" for i
    using sorted_wrt_nth_less[OF srt, of i "i + 1"] that len by simp
  then have 4: "\<forall>i. i + 1 < length ?sm \<longrightarrow> ?sm ! (?ord ! i) \<ge> ?sm ! (?ord ! (i + 1))"
    by blast
  have 1: "?sm = filter (\<lambda>s. s > sthr) scores0" by (rule survivors_scores)
  have 2: "survivors boxes scores0 sthr = map fst (filter (\<lambda>(b, s). s > sthr) (zip boxes scores0))"
    using assms(1) by (rule survivors_zip)
  note 3 = nms2d_cuda_eq[OF assms(1), of argsort fns S thr sthr p]
  have 5: "(case nms2d_cuda argsort fns boxes scores0 S thr sthr p of
            Inl e \<Rightarrow> False
          | Inr flags \<Rightarrow> length flags = length (filter (\<lambda>s. s > sthr) scores0))"
    unfolding 3 by (simp only: sum.case templated_length_suppressed length_replicate
        length_survivors[OF assms(1)])
  show ?thesis using 1 2 3 4 5 by blast
qed

theorem prefilter_and_order_witness:
  "length three_boxes = length [3/5, 1/20, 9/10 :: real] \<and>
   is_argsort_desc (survivors [3/5, 1/20, 9/10] [3/5, 1/20, 9/10] (1/10))
     (argsort_desc (survivors [3/5, 1/20, 9/10] [3/5, 1/20, 9/10] (1/10))) \<and>
   survivors [3/5, 1/20, 9/10 :: real] [3/5, 1/20, 9/10] (1/10) = [3/5, 9/10] \<and>
   survivors three_boxes [3/5, 1/20, 9/10] (1/10) = two_boxes \<and>
   argsort_desc [3/5, 9/10] = [1, 0] \<and>
   (0::nat) + 1 < length (survivors [3/5, 1/20, 9/10 :: real] [3/5, 1/20, 9/10] (1/10)) \<and>
   survivors [3/5, 1/20, 9/10 :: real] [3/5, 1/20, 9/10] (1/10)
       ! (argsort_desc (survivors [3/5, 1/20, 9/10] [3/5, 1/20, 9/10] (1/10)) ! 0)
     \<ge> survivors [3/5, 1/20, 9/10 :: real] [3/5, 1/20, 9/10] (1/10)
       ! (argsort_desc (survivors [3/5, 1/20, 9/10] [3/5, 1/20, 9/10] (1/10)) ! (0 + 1)) \<and>
   nms2d_cuda argsort_desc (real_fns aabox_iou) three_boxes [3/5, 1/20, 9/10] HARD (1/2) (1/10) 1
     = Inr [True, False]"
proof -
  have h1: "length three_boxes = length [3/5, 1/20, 9/10 :: real]"
    by (simp add: three_boxes_def)
  have h2: "is_argsort_desc (survivors [3/5, 1/20, 9/10] [3/5, 1/20, 9/10] (1/10))
     (argsort_desc (survivors [3/5, 1/20, 9/10] [3/5, 1/20, 9/10] (1/10)))"
    by (rule argsort_desc_ok)
  have e: "nms2d_cuda argsort_desc (real_fns aabox_iou) three_boxes [3/5, 1/20, 9/10] HARD
      (1/2) (1/10) 1 = Inr [True, False]"
    by (simp only: nms2d_cuda_eq[OF h1] survivors_three argsort_desc_two replicate_two
        templated_two_hard collect_mem.select_convs)
  show ?thesis
    using h1 h2 e
      prefilter_and_order[where boxes = three_boxes and ?scores0.0 = "[3/5, 1/20, 9/10]"
        and sthr = "1/10" and argsort = argsort_desc and fns = "real_fns aabox_iou"
        and S = HARD and thr = "1/2" and p = 1]
    by (simp add: survivors_three argsort_desc_two)
qed

subsection \<open>C5\<close>

text \<open>
  C5. After the pairwise phase, for every input and mode, a bit of row \<open>i\<close> of the
  overlap bit matrix is set only for a sorted position that comes strictly after \<open>i\<close>
  and whose IoU with \<open>i\<close> exceeds the threshold; every bit on or below the diagonal
  is zero.
\<close>

theorem overlap_bits_strictly_upper:
  assumes "i < length boxes" and "c < divup (length boxes) FLAG_WIDTH"
  shows "(bit (mask_w (pairwise_phase fns S boxes order thr p) ! i ! c) k \<longrightarrow>
            i < c * FLAG_WIDTH + k \<and> sorted_iou fns boxes order i (c * FLAG_WIDTH + k) > thr) \<and>
         (c * FLAG_WIDTH + k \<le> i \<longrightarrow>
            \<not> bit (mask_w (pairwise_phase fns S boxes order thr p) ! i ! c) k)"
  using assms by (auto simp add: pairwise_phase_mask overlap_bit_def)

theorem overlap_bits_strictly_upper_witness:
  "(0::nat) < length two_boxes \<and>
   (0::nat) < divup (length two_boxes) FLAG_WIDTH \<and>
   bit (mask_w (pairwise_phase (real_fns aabox_iou) HARD two_boxes [0, 1] (1/2) 1) ! 0 ! 0) 1 \<and>
   (0::nat) < 0 * FLAG_WIDTH + 1 \<and>
   sorted_iou (real_fns aabox_iou) two_boxes [0, 1] 0 (0 * FLAG_WIDTH + 1) > 1/2 \<and>
   0 * FLAG_WIDTH + 0 \<le> (0::nat) \<and>
   \<not> bit (mask_w (pairwise_phase (real_fns aabox_iou) HARD two_boxes [0, 1] (1/2) 1) ! 0 ! 0) 0"
proof -
  have b: "bit (mask_w (pairwise_phase (real_fns aabox_iou) HARD two_boxes [0, 1] (1/2) 1) ! 0 ! 0) 1"
    by (simp add: pairwise_phase_mask overlap_bit_def sorted_iou_def real_fns_def aabox_iou_def
        divup_def FLAG_WIDTH_64 two_boxes_def)
  show ?thesis
    using b
      overlap_bits_strictly_upper[of 0 two_boxes 0 "real_fns aabox_iou" HARD "[0, 1]" "1/2" 1 1]
      overlap_bits_strictly_upper[of 0 two_boxes 0 "real_fns aabox_iou" HARD "[0, 1]" "1/2" 1 0]
    by (simp add: divup_def FLAG_WIDTH_64 two_boxes_def)
qed

subsection \<open>C6\<close>

text \<open>
  C6. Throughout the collecting kernel, in every mode, accumulator bits are only set,
  never cleared, and flags only go from false to true: this holds of every step of
  the innermost loop, of the loop over the words, of the outer loop, and between any
  two rounds of the outer loop, the last of which is the end of the kernel.
\<close>

theorem suppression_only_grows:
  "mem_le st (soft_bit_step msk coeffs thr i j k st) \<and>
   mem_le st (block_step S msk coeffs thr i j st) \<and>
   mem_le st (collect_step S order msk coeffs thr i st) \<and>
   (a \<le> b \<longrightarrow>
      mem_le (collect_upto S order msk coeffs thr a st) (collect_upto S order msk coeffs thr b st)) \<and>
   nms_collect_kernel S order msk coeffs thr st = collect_upto S order msk coeffs thr (size0 msk) st"
  by (simp add: mem_le_soft_bit_step mem_le_block_step mem_le_collect_step mem_le_collect_upto
      nms_collect_kernel_upto)

theorem suppression_only_grows_witness:
  "(1::nat) \<le> 2 \<and>
   remv (collect_upto HARD [0, 1] demo_mask [] (1/10) 1 demo_mem) = [2] \<and>
   suppressed (collect_upto HARD [0, 1] demo_mask [] (1/10) 2 demo_mem) = [False, True] \<and>
   mem_le (collect_upto HARD [0, 1] demo_mask [] (1/10) 1 demo_mem)
          (collect_upto HARD [0, 1] demo_mask [] (1/10) 2 demo_mem) \<and>
   nms_collect_kernel HARD [0, 1] demo_mask [] (1/10) demo_mem =
     collect_upto HARD [0, 1] demo_mask [] (1/10) (size0 demo_mask) demo_mem"
proof -
  have e: "remv (collect_upto HARD [0, 1] demo_mask [] (1/10) 1 demo_mem) = [2]"
    "suppressed (collect_upto HARD [0, 1] demo_mask [] (1/10) 2 demo_mem) = [False, True]"
    by (simp_all add: eval_defs demo_mask_def demo_mem_def upt_rec[of _ "numeral _"] upt_rec[of _ "Suc _"] numeral_2_eq_2)
  show ?thesis
    using e suppression_only_grows[of demo_mem demo_mask "[]" "1/10" 0 0 0 HARD "[0, 1]" 1 2]
    by simp
qed

subsection \<open>C7\<close>

text \<open>
  C7. For every input in every mode, a surviving shape whose IoU with every other
  surviving shape is at most the IoU threshold is never suppressed: its flag, the one
  at its index among the surviving shapes, is false.
\<close>

theorem isolated_shape_kept:
  assumes "length boxes = length scores0"
    and "is_argsort_desc (survivors scores0 scores0 sthr) (argsort (survivors scores0 scores0 sthr))"
    and "s < length (survivors boxes scores0 sthr)"
    and "\<forall>t<length (survivors boxes scores0 sthr). t \<noteq> s \<longrightarrow>
           box_iou fns (survivors boxes scores0 sthr ! t) (survivors boxes scores0 sthr ! s) \<le> thr"
  shows "case nms2d_cuda argsort fns boxes scores0 S thr sthr p of
           Inl e \<Rightarrow> False
         | Inr flags \<Rightarrow> \<not> flags ! s"
proof -
  have len: "length (survivors boxes scores0 sthr) = length (survivors scores0 scores0 sthr)"
    using assms(1) by (simp add: length_survivors)
  have perm: "mset (argsort (survivors scores0 scores0 sthr)) = mset [0..<length (survivors boxes scores0 sthr)]"
    using assms(2) len by (simp add: is_argsort_desc_def)
  show ?thesis
    unfolding nms2d_cuda_eq[OF assms(1)] sum.case
    using perm assms(3,4) by (rule templated_isolated)
qed

theorem isolated_shape_kept_witness:
  "length three_boxes = length [3/5, 1/2, 9/10 :: real] \<and>
   is_argsort_desc (survivors [3/5, 1/2, 9/10] [3/5, 1/2, 9/10] (1/10))
     (argsort_desc (survivors [3/5, 1/2, 9/10] [3/5, 1/2, 9/10] (1/10))) \<and>
   (1::nat) < length (survivors three_boxes [3/5, 1/2, 9/10] (1/10)) \<and>
   box_iou (real_fns aabox_iou) (survivors three_boxes [3/5, 1/2, 9/10] (1/10) ! 0)
     (survivors three_boxes [3/5, 1/2, 9/10] (1/10) ! 1) \<le> 1/2 \<and>
   box_iou (real_fns aabox_iou) (survivors three_boxes [3/5, 1/2, 9/10] (1/10) ! 2)
     (survivors three_boxes [3/5, 1/2, 9/10] (1/10) ! 1) \<le> 1/2 \<and>
   nms2d_cuda argsort_desc (real_fns aabox_iou) three_boxes [3/5, 1/2, 9/10] HARD (1/2) (1/10) 1
     = Inr [True, False, False] \<and>
   (case nms2d_cuda argsort_desc (real_fns aabox_iou) three_boxes [3/5, 1/2, 9/10] HARD (1/2) (1/10) 1 of
      Inl e \<Rightarrow> False
    | Inr flags \<Rightarrow> \<not> flags ! 1)"
proof -
  let ?bm = "survivors three_boxes [3/5, 1/2, 9/10] (1/10)"
  have h1: "length three_boxes = length [3/5, 1/2, 9/10 :: real]"
    by (simp add: three_boxes_def)
  have h2: "is_argsort_desc (survivors [3/5, 1/2, 9/10] [3/5, 1/2, 9/10] (1/10))
     (argsort_desc (survivors [3/5, 1/2, 9/10] [3/5, 1/2, 9/10] (1/10)))"
    by (rule argsort_desc_ok)
  have h3: "(1::nat) < length ?bm"
    unfolding survivors_all_three by (simp add: three_boxes_def)
  have i0: "box_iou (real_fns aabox_iou) (?bm ! 0) (?bm ! 1) \<le> 1/2"
    and i2: "box_iou (real_fns aabox_iou) (?bm ! 2) (?bm ! 1) \<le> 1/2"
    unfolding survivors_all_three by (simp_all add: three_boxes_def real_fns_def aabox_iou_def)
  have "t = 0 \<or> t = 1 \<or> t = 2" if "t < length ?bm" for t
    using that unfolding survivors_all_three by (auto simp add: three_boxes_def)
  then have h4: "\<forall>t<length ?bm. t \<noteq> 1 \<longrightarrow>
      box_iou (real_fns aabox_iou) (?bm ! t) (?bm ! 1) \<le> 1/2"
    using i0 i2 by blast
  show ?thesis
    using h1 h2 h3 i0 i2 nms2d_cuda_three_hard
      isolated_shape_kept[where boxes = three_boxes and ?scores0.0 = "[3/5, 1/2, 9/10]"
        and sthr = "1/10" and argsort = argsort_desc and fns = "real_fns aabox_iou"
        and S = HARD and thr = "1/2" and p = 1 and s = 1, OF h1 h2 h3 h4]
    by blast
qed

subsection \<open>C8\<close>

text \<open>
  C8. In HARD mode, running the whole of \<^verbatim>\<open>nms2d_cuda\<close> again on exactly the shapes a
  first run kept, with the same thresholds, suppresses nothing: every flag of the
  second run is false. The IoU of the geometry is taken to be symmetric.
\<close>

theorem hard_rerun_suppresses_nothing:
  assumes len: "length boxes = length scores0"
    and sym: "\<forall>x y. box_iou fns x y = box_iou fns y x"
    and o1: "is_argsort_desc (survivors scores0 scores0 sthr)
               (argsort (survivors scores0 scores0 sthr))"
    and r1: "nms2d_cuda argsort fns boxes scores0 HARD thr sthr p = Inr flags"
    and o2: "is_argsort_desc (index_mask (survivors scores0 scores0 sthr) (map Not flags))
               (argsort (index_mask (survivors scores0 scores0 sthr) (map Not flags)))"
  shows "nms2d_cuda argsort fns
           (index_mask (survivors boxes scores0 sthr) (map Not flags))
           (index_mask (survivors scores0 scores0 sthr) (map Not flags))
           HARD thr sthr p
         = Inr (replicate (length (index_mask (survivors boxes scores0 sthr) (map Not flags))) False)"
proof -
  let ?bm = "survivors boxes scores0 sthr"
  let ?sm = "survivors scores0 scores0 sthr"
  let ?b2 = "index_mask ?bm (map Not flags)"
  let ?s2 = "index_mask ?sm (map Not flags)"
  have lbs: "length ?bm = length ?sm" using len by (simp add: length_survivors)
  have perm1: "mset (argsort ?sm) = mset [0..<length ?bm]"
    using o1 lbs by (simp add: is_argsort_desc_def)
  have fl: "flags = suppressed (nms2d_cuda_templated fns HARD ?bm (argsort ?sm) ?sm thr sthr p
                       (replicate (length ?bm) False))"
    using r1 unfolding nms2d_cuda_eq[OF len] by simp
  have lf: "length flags = length ?bm" by (simp add: fl templated_length_suppressed)
  have l2: "length ?b2 = length ?s2"
    using lf lbs by (simp add: length_index_mask)
  have "set ?s2 \<subseteq> set ?sm" by (rule set_index_mask)
  then have big: "\<forall>x \<in> set ?s2. x > sthr" by (auto simp add: survivors_scores)
  have sv: "survivors ?b2 ?s2 sthr = ?b2" "survivors ?s2 ?s2 sthr = ?s2"
    using l2 big by (simp_all add: survivors_id)
  have perm2: "mset (argsort ?s2) = mset [0..<length ?b2]"
    using o2 l2 by (simp add: is_argsort_desc_def)
  let ?T2 = "nms2d_cuda_templated fns HARD ?b2 (argsort ?s2) ?s2 thr sthr p
               (replicate (length ?b2) False)"
  have "\<not> suppressed ?T2 ! q" if q: "q < length ?b2" for q
  proof (rule templated_isolated[OF perm2 q])
    show "\<forall>t<length ?b2. t \<noteq> q \<longrightarrow> box_iou fns (?b2 ! t) (?b2 ! q) \<le> thr"
      using kept_apart[OF perm1 sym fl _ q] by blast
  qed
  then have "suppressed ?T2 = replicate (length ?b2) False"
    by (intro nth_equalityI) (simp_all add: templated_length_suppressed)
  then show ?thesis
    unfolding nms2d_cuda_eq[OF l2] sv by simp
qed

theorem hard_rerun_suppresses_nothing_witness:
  "length three_boxes = length [3/5, 1/2, 9/10 :: real] \<and>
   (\<forall>x y. box_iou (real_fns aabox_iou) x y = box_iou (real_fns aabox_iou) y x) \<and>
   is_argsort_desc (survivors [3/5, 1/2, 9/10] [3/5, 1/2, 9/10] (1/10))
     (argsort_desc (survivors [3/5, 1/2, 9/10] [3/5, 1/2, 9/10] (1/10))) \<and>
   nms2d_cuda argsort_desc (real_fns aabox_iou) three_boxes [3/5, 1/2, 9/10] HARD (1/2) (1/10) 1
     = Inr [True, False, False] \<and>
   is_argsort_desc
     (index_mask (survivors [3/5, 1/2, 9/10] [3/5, 1/2, 9/10] (1/10)) (map Not [True, False, False]))
     (argsort_desc
       (index_mask (survivors [3/5, 1/2, 9/10] [3/5, 1/2, 9/10] (1/10)) (map Not [True, False, False]))) \<and>
   index_mask (survivors three_boxes [3/5, 1/2, 9/10] (1/10)) (map Not [True, False, False])
     = [(20, 20, 30, 30), (0, 0, 10, 8)] \<and>
   index_mask (survivors [3/5, 1/2, 9/10 :: real] [3/5, 1/2, 9/10] (1/10)) (map Not [True, False, False])
     = [1/2, 9/10] \<and>
   nms2d_cuda argsort_desc (real_fns aabox_iou) [(20, 20, 30, 30), (0, 0, 10, 8)] [1/2, 9/10]
     HARD (1/2) (1/10) 1 = Inr [False, False]"
proof -
  have h1: "length three_boxes = length [3/5, 1/2, 9/10 :: real]"
    by (simp add: three_boxes_def)
  have h2: "\<forall>x y. box_iou (real_fns aabox_iou) x y = box_iou (real_fns aabox_iou) y x"
    by (simp add: real_fns_def aabox_iou_sym)
  have h3: "is_argsort_desc (survivors [3/5, 1/2, 9/10] [3/5, 1/2, 9/10] (1/10))
     (argsort_desc (survivors [3/5, 1/2, 9/10] [3/5, 1/2, 9/10] (1/10)))"
    by (rule argsort_desc_ok)
  note h4 = nms2d_cuda_three_hard
  have h5: "is_argsort_desc
     (index_mask (survivors [3/5, 1/2, 9/10] [3/5, 1/2, 9/10] (1/10)) (map Not [True, False, False]))
     (argsort_desc
       (index_mask (survivors [3/5, 1/2, 9/10] [3/5, 1/2, 9/10] (1/10)) (map Not [True, False, False])))"
    by (rule argsort_desc_ok)
  have "nms2d_cuda argsort_desc (real_fns aabox_iou)
      (index_mask (survivors three_boxes [3/5, 1/2, 9/10] (1/10)) (map Not [True, False, False]))
      (index_mask (survivors [3/5, 1/2, 9/10] [3/5, 1/2, 9/10] (1/10)) (map Not [True, False, False]))
      HARD (1/2) (1/10) 1
    = Inr (replicate (length (index_mask (survivors three_boxes [3/5, 1/2, 9/10] (1/10))
             (map Not [True, False, False]))) False)"
    using h1 h2 h3 h4 h5 by (rule hard_rerun_suppresses_nothing)
  then have "nms2d_cuda argsort_desc (real_fns aabox_iou) [(20, 20, 30, 30), (0, 0, 10, 8)] [1/2, 9/10]
     HARD (1/2) (1/10) 1 = Inr [False, False]"
    unfolding kept_three by (simp add: numeral_2_eq_2)
  then show ?thesis
    using h1 h2 h3 h4 h5 kept_three by blast
qed

subsection \<open>C9\<close>




subsection \<open>C10\<close>

text \<open>
  C10. For every input and mode, \<^verbatim>\<open>nms2d_cuda\<close> leaves the tensors of its caller as
  they were: every storage that exists before the call, the caller's \<^verbatim>\<open>boxes\<close> and
  \<^verbatim>\<open>scores\<close> among them, holds the same data after it. The filtered boxes and scores
  are new storages, the kernels write into these and into the temporaries only, and
  the flags returned are those of the function on values.
\<close>

theorem caller_tensors_untouched:
  assumes "boxes_at h boxes_a = Some boxes" and "reals_at h scores_a = Some scores0"
  shows "take (length h) (fst (nms2d_cuda_mem argsort fns h boxes_a scores_a S thr sthr p)) = h \<and>
         boxes_at (fst (nms2d_cuda_mem argsort fns h boxes_a scores_a S thr sthr p)) boxes_a
           = Some boxes \<and>
         reals_at (fst (nms2d_cuda_mem argsort fns h boxes_a scores_a S thr sthr p)) scores_a
           = Some scores0 \<and>
         (case snd (nms2d_cuda_mem argsort fns h boxes_a scores_a S thr sthr p) of
            Inl e \<Rightarrow> nms2d_cuda argsort fns boxes scores0 S thr sthr p = Inl e
          | Inr a \<Rightarrow>
              length h \<le> a \<and>
              map_option Inr
                (bools_at (fst (nms2d_cuda_mem argsort fns h boxes_a scores_a S thr sthr p)) a)
                = Some (nms2d_cuda argsort fns boxes scores0 S thr sthr p))"
proof -
  let ?R = "nms2d_cuda_mem argsort fns h boxes_a scores_a S thr sthr p"
  have fr: "take (length h) (fst ?R) = h" by (rule nms2d_cuda_mem_frame)
  have "length (take (length h) (fst ?R)) = length h" by (simp only: fr)
  then have len: "length h \<le> length (fst ?R)" by simp
  have same: "fst ?R ! a = h ! a" if "a < length h" for a
    using fr that by (metis nth_take)
  have ba: "boxes_a < length h" "scores_a < length h"
    using assms by (auto simp add: at_defs split: if_splits)
  have 2: "boxes_at (fst ?R) boxes_a = Some boxes"
    using assms(1) ba same[of boxes_a] len by (simp add: boxes_at_def)
  have 3: "reals_at (fst ?R) scores_a = Some scores0"
    using assms(2) ba same[of scores_a] len by (simp add: reals_at_def)
  have 4: "(case snd ?R of
            Inl e \<Rightarrow> nms2d_cuda argsort fns boxes scores0 S thr sthr p = Inl e
          | Inr a \<Rightarrow> length h \<le> a \<and>
              map_option Inr (bools_at (fst ?R) a)
                = Some (nms2d_cuda argsort fns boxes scores0 S thr sthr p))"
  proof (cases "length boxes = length scores0")
    case True
    then show ?thesis
      using nms2d_cuda_mem_result(2)[OF assms True, of argsort fns S thr sthr p]
      by (simp add: nms2d_cuda_eq)
  next
    case False
    then show ?thesis
      using nms2d_cuda_mem_result(1)[OF assms False, of argsort fns S thr sthr p]
      by (simp add: nms2d_cuda_def)
  qed
  show ?thesis using fr 2 3 4 by blast
qed

theorem caller_tensors_untouched_witness:
  "boxes_at [Boxes two_boxes, Reals [3/5, 9/10]] 0 = Some two_boxes \<and>
   reals_at [Boxes two_boxes, Reals [3/5, 9/10]] 1 = Some [3/5, 9/10] \<and>
   take (length [Boxes two_boxes, Reals [3/5, 9/10]])
     (fst (nms2d_cuda_mem argsort_desc (real_fns aabox_iou) [Boxes two_boxes, Reals [3/5, 9/10]] 0 1
            LINEAR (1/2) (3/20) 1))
     = [Boxes two_boxes, Reals [3/5, 9/10]] \<and>
   reals_at (fst (nms2d_cuda_mem argsort_desc (real_fns aabox_iou)
                   [Boxes two_boxes, Reals [3/5, 9/10]] 0 1 LINEAR (1/2) (3/20) 1)) 1
     = Some [3/5, 9/10] \<and>
   reals_at (fst (nms2d_cuda_mem argsort_desc (real_fns aabox_iou)
                   [Boxes two_boxes, Reals [3/5, 9/10]] 0 1 LINEAR (1/2) (3/20) 1)) 4
     = Some [3/5, 0] \<and>
   snd (nms2d_cuda_mem argsort_desc (real_fns aabox_iou)
          [Boxes two_boxes, Reals [3/5, 9/10]] 0 1 LINEAR (1/2) (3/20) 1) = Inr 6 \<and>
   bools_at (fst (nms2d_cuda_mem argsort_desc (real_fns aabox_iou)
                   [Boxes two_boxes, Reals [3/5, 9/10]] 0 1 LINEAR (1/2) (3/20) 1)) 6
     = Some [True, False]"
proof -
  let ?h = "[Boxes two_boxes, Reals [3/5, 9/10]]"
  have h1: "boxes_at ?h 0 = Some two_boxes" by (simp add: boxes_at_def)
  have h2: "reals_at ?h 1 = Some [3/5, 9/10]" by (simp add: reals_at_def)
  have len: "length two_boxes = length [3/5, 9/10 :: real]" by (simp add: two_boxes_def)
  have T: "nms2d_cuda_templated (real_fns aabox_iou) LINEAR (survivors two_boxes [3/5, 9/10] (3/20))
             (argsort_desc (survivors [3/5, 9/10] [3/5, 9/10] (3/20)))
             (survivors [3/5, 9/10] [3/5, 9/10] (3/20)) (1/2) (3/20) 1
             (replicate (length (survivors two_boxes [3/5, 9/10] (3/20))) False)
           = \<lparr>remv = [2], scores = [3/5, 0], suppressed = [True, False]\<rparr>"
    by (simp only: survivors_two argsort_desc_two replicate_two templated_two_linear)
  have r: "snd (nms2d_cuda_mem argsort_desc (real_fns aabox_iou) ?h 0 1 LINEAR (1/2) (3/20) 1) = Inr 6"
    "bools_at (fst (nms2d_cuda_mem argsort_desc (real_fns aabox_iou) ?h 0 1 LINEAR (1/2) (3/20) 1)) 6
       = Some [True, False]"
    "reals_at (fst (nms2d_cuda_mem argsort_desc (real_fns aabox_iou) ?h 0 1 LINEAR (1/2) (3/20) 1)) 4
       = Some [3/5, 0]"
    using nms2d_cuda_mem_result(2)[OF h1 h2 len, of argsort_desc "real_fns aabox_iou" LINEAR "1/2" "3/20" 1]
    unfolding T by (simp_all add: eval_nat_numeral)
  show ?thesis
    using h1 h2 r
      caller_tensors_untouched[OF h1 h2, of argsort_desc "real_fns aabox_iou" LINEAR "1/2" "3/20" 1]
    by blast
qed

end
